theory Spec2Isabelle
  imports Complex_Main "HOL-Library.Log_Nat"
begin

section \<open>The retry and recovery layer of the icon panel\<close>

text \<open>
  A shallow embedding of the class \<^verbatim>\<open>ErrorRecoveryManager\<close> (src/app.js, lines 1846 to 2036;
  src/ui.js, lines 227 to 417, holds the same text as an exported class).

  Conventions of the embedding:
  \<^item> JavaScript numbers that hold durations and multipliers are values of \<open>number\<close>: the
    finite doubles as rationals, the two infinities and NaN, with the results of \<^verbatim>\<open>*\<close> and
    \<^verbatim>\<open>Math.pow\<close> rounded to the nearest double. Counters and attempt numbers are natural
    numbers, clock readings (\<^verbatim>\<open>Date.now()\<close>) are integers.
  \<^item> A thrown value is a value of \<open>js_error\<close>; a function that may throw returns a sum,
    with \<open>Inl\<close> for the thrown value.
  \<^item> The manager is a singleton mutated in place; here every method takes the manager and
    returns the updated one.
  \<^item> An awaited callback is a function from its arguments to its outcome. The calls the
    methods make to the outside (the operation, \<^verbatim>\<open>onRetry\<close>, the timer) are recorded, in
    order, in a list of events that each method returns. Of the console output only the
    line of the \<^verbatim>\<open>catch\<close> around \<^verbatim>\<open>onRetry\<close> is recorded.
\<close>

subsection \<open>Numbers\<close>

text \<open>
  A JavaScript number is a double: a finite value, an infinity or NaN. The finite values
  are kept as rationals, and the two zeros are one value.
\<close>

datatype number = Finite rat | PosInfinity | NegInfinity | NaN

text \<open>
  The binary exponent of a positive rational \<open>a\<close>: the integer \<open>e\<close> with
  \<open>2 powi e \<le> a < 2 powi (e + 1)\<close>, read off the bit lengths of the numerator and the
  denominator.
\<close>

definition ilog2 :: "rat \<Rightarrow> int" where
  "ilog2 a =
     (let (p, q) = quotient_of a; d = bitlen p - bitlen q
      in if 2 powi d \<le> a then d else d - 1)"

text \<open>Rounding to the nearest integer, a tie going to the even one.\<close>

definition rne :: "rat \<Rightarrow> int" where
  "rne t =
     (let f = \<lfloor>t\<rfloor>; d = t - of_int f
      in if d < 1 / 2 then f else if 1 / 2 < d then f + 1 else if even f then f else f + 1)"

text \<open>
  The doubles near a positive \<open>m\<close> are the multiples of \<open>ulp m\<close>: significands have 53 bits,
  and below \<open>2 powi (- 1022)\<close> (the subnormal range) the spacing stays \<open>2 powi (- 1074)\<close>.
  \<open>quantize m\<close> is the nearest of them, a tie going to the even significand; it is beyond
  the largest double when the exponent is above 1023, or is 1023 and the significand
  rounds up to \<open>2 ^ 53\<close>.
\<close>

definition exponent :: "rat \<Rightarrow> int" where
  "exponent m = max (ilog2 m) (- 1022)"

definition ulp :: "rat \<Rightarrow> rat" where
  "ulp m = 2 powi (exponent m - 52)"

definition quantize :: "rat \<Rightarrow> rat" where
  "quantize m = of_int (rne (m / ulp m)) * ulp m"

definition overflows :: "rat \<Rightarrow> bool" where
  "overflows m =
     (if 1024 \<le> exponent m then True
      else exponent m = 1023 \<and> rne (m / ulp m) = 2 ^ 53)"

text \<open>The double nearest to a rational (round to nearest, ties to even), or an infinity.\<close>

definition fl :: "rat \<Rightarrow> number" where
  "fl x =
     (if x = 0 then Finite 0
      else if 0 < x then (if overflows x then PosInfinity else Finite (quantize x))
      else (if overflows (- x) then NegInfinity else Finite (- quantize (- x))))"

text \<open>The operator \<^verbatim>\<open>*\<close>.\<close>

fun js_times :: "number \<Rightarrow> number \<Rightarrow> number" where
  "js_times NaN _ = NaN"
| "js_times _ NaN = NaN"
| "js_times (Finite a) (Finite b) = fl (a * b)"
| "js_times (Finite a) PosInfinity =
     (if a = 0 then NaN else if 0 < a then PosInfinity else NegInfinity)"
| "js_times (Finite a) NegInfinity =
     (if a = 0 then NaN else if 0 < a then NegInfinity else PosInfinity)"
| "js_times PosInfinity (Finite b) =
     (if b = 0 then NaN else if 0 < b then PosInfinity else NegInfinity)"
| "js_times NegInfinity (Finite b) =
     (if b = 0 then NaN else if 0 < b then NegInfinity else PosInfinity)"
| "js_times PosInfinity PosInfinity = PosInfinity"
| "js_times PosInfinity NegInfinity = NegInfinity"
| "js_times NegInfinity PosInfinity = NegInfinity"
| "js_times NegInfinity NegInfinity = PosInfinity"

text \<open>
  \<^verbatim>\<open>Math.pow\<close> with an exponent that is a natural number, as \<^verbatim>\<open>attempt - 1\<close> is. The language
  fixes the results for an exponent of 0, for NaN and for the infinities, and leaves the
  accuracy of the other results to the engine; here they are the correctly rounded powers.
\<close>

definition Math_pow :: "number \<Rightarrow> nat \<Rightarrow> number" where
  "Math_pow base n =
     (if n = 0 then Finite 1
      else case base of
             NaN \<Rightarrow> NaN
           | PosInfinity \<Rightarrow> PosInfinity
           | NegInfinity \<Rightarrow> (if odd n then NegInfinity else PosInfinity)
           | Finite a \<Rightarrow> fl (a ^ n))"

text \<open>\<^verbatim>\<open>Math.min\<close> of two arguments.\<close>

fun Math_min :: "number \<Rightarrow> number \<Rightarrow> number" where
  "Math_min NaN _ = NaN"
| "Math_min _ NaN = NaN"
| "Math_min NegInfinity _ = NegInfinity"
| "Math_min _ NegInfinity = NegInfinity"
| "Math_min PosInfinity y = y"
| "Math_min x PosInfinity = x"
| "Math_min (Finite a) (Finite b) = Finite (min a b)"

text \<open>The comparisons \<^verbatim>\<open><=\<close> and \<^verbatim>\<open><\<close>: false when an operand is NaN.\<close>

fun js_le :: "number \<Rightarrow> number \<Rightarrow> bool" where
  "js_le NaN _ = False"
| "js_le _ NaN = False"
| "js_le NegInfinity _ = True"
| "js_le _ PosInfinity = True"
| "js_le (Finite a) (Finite b) = (a \<le> b)"
| "js_le _ _ = False"

fun js_less :: "number \<Rightarrow> number \<Rightarrow> bool" where
  "js_less NaN _ = False"
| "js_less _ NaN = False"
| "js_less PosInfinity _ = False"
| "js_less _ NegInfinity = False"
| "js_less NegInfinity _ = True"
| "js_less _ PosInfinity = True"
| "js_less (Finite a) (Finite b) = (a < b)"

subsection \<open>Values\<close>

datatype js_error =
    Error (message: string)
  | TypeError (message: string)

datatype circuit_status = Closed | Open | HalfOpen

record circuit =
  state :: circuit_status
  failureCount :: nat
  lastFailureTime :: int
  lastSuccessTime :: int

text \<open>
  The values that \<^verbatim>\<open>retryAttempts\<close> can hold: a number (the retry counter), an object (a
  circuit), or a string, which is what \<^verbatim>\<open>+ 1\<close> makes of an object or of a string.
\<close>

datatype entry =
    Counter nat
  | Text string
  | CircuitEntry circuit

type_synonym registry = "string \<rightharpoonup> entry"

record manager =
  retryAttempts :: registry
  mgr_maxRetries :: nat
  mgr_baseDelay :: number
  mgr_maxDelay :: number
  mgr_backoffMultiplier :: number

text \<open>The constructor, lines 1849 to 1861.\<close>

definition new_manager :: manager where
  "new_manager =
     \<lparr>retryAttempts = Map.empty, mgr_maxRetries = 3, mgr_baseDelay = Finite 1000,
      mgr_maxDelay = Finite 10000, mgr_backoffMultiplier = Finite 2\<rparr>"

datatype event =
    Attempt nat
  | Operation
  | OnRetry nat number
  | CallbackFailed js_error
  | Delay number

type_synonym 'v operation = "nat \<Rightarrow> js_error + 'v"
type_synonym shouldRetry_fn = "js_error \<Rightarrow> nat \<Rightarrow> js_error + bool"
type_synonym onRetry_fn = "js_error \<Rightarrow> nat \<Rightarrow> number \<Rightarrow> js_error + unit"

text \<open>
  The \<^verbatim>\<open>options\<close> argument of \<^verbatim>\<open>executeWithRetry\<close>: a field that is \<open>None\<close> is a property
  that is missing, so that the destructuring takes the default.
\<close>

record retry_options =
  opt_maxRetries :: "nat option"
  opt_baseDelay :: "number option"
  opt_backoffMultiplier :: "number option"
  opt_maxDelay :: "number option"
  opt_onRetry :: "onRetry_fn option"
  opt_shouldRetry :: "shouldRetry_fn option"

definition no_options :: retry_options where
  "no_options =
     \<lparr>opt_maxRetries = None, opt_baseDelay = None, opt_backoffMultiplier = None,
      opt_maxDelay = None, opt_onRetry = None, opt_shouldRetry = None\<rparr>"

text \<open>A destructuring default: \<^verbatim>\<open>const { x = d } = options\<close>.\<close>

definition or_default :: "'a option \<Rightarrow> 'a \<Rightarrow> 'a" where
  "or_default v d = (case v of None \<Rightarrow> d | Some x \<Rightarrow> x)"

subsection \<open>Rendering a count in a template literal\<close>

function string_of_nat :: "nat \<Rightarrow> string" where
  "string_of_nat n =
     (if n < 10 then [''0123456789'' ! n]
      else string_of_nat (n div 10) @ [''0123456789'' ! (n mod 10)])"
  by pat_completeness auto
termination
  by (relation "measure id") auto

declare string_of_nat.simps [simp del]

subsection \<open>The backoff, lines 1912 to 1915\<close>

text \<open>\<^verbatim>\<open>Math.min(baseDelay * Math.pow(backoffMultiplier, attempt - 1), maxDelay)\<close>\<close>

definition backoff_delay :: "number \<Rightarrow> number \<Rightarrow> number \<Rightarrow> nat \<Rightarrow> number" where
  "backoff_delay baseDelay backoffMultiplier maxDelay attempt =
     Math_min (js_times baseDelay (Math_pow backoffMultiplier (attempt - 1))) maxDelay"

subsection \<open>executeWithRetry, lines 1871 to 1937\<close>

text \<open>The value of \<^verbatim>\<open>shouldRetry && !shouldRetry(error, attempt)\<close>, or what the call throws.\<close>

definition not_retryable :: "shouldRetry_fn option \<Rightarrow> js_error \<Rightarrow> nat \<Rightarrow> js_error + bool" where
  "not_retryable shouldRetry error attempt =
     (case shouldRetry of
        None \<Rightarrow> Inr False
      | Some f \<Rightarrow> (case f error attempt of Inl thrown \<Rightarrow> Inl thrown | Inr b \<Rightarrow> Inr (\<not> b)))"

text \<open>
  \<^verbatim>\<open>if (onRetry) { try { await onRetry(error, attempt, delay) } catch (callbackError) {
  console.error(...) } }\<close>: the events of the block.
\<close>

definition call_onRetry :: "onRetry_fn option \<Rightarrow> js_error \<Rightarrow> nat \<Rightarrow> number \<Rightarrow> event list" where
  "call_onRetry onRetry error attempt delay =
     (case onRetry of
        None \<Rightarrow> []
      | Some f \<Rightarrow>
          (case f error attempt delay of
             Inr _ \<Rightarrow> [OnRetry attempt delay]
           | Inl callbackError \<Rightarrow> [OnRetry attempt delay, CallbackFailed callbackError]))"

text \<open>
  How the \<^verbatim>\<open>for\<close> loop is left: by \<^verbatim>\<open>return result\<close>, by an exception that is not caught
  (one thrown by \<^verbatim>\<open>shouldRetry\<close> inside the \<^verbatim>\<open>catch\<close> block), or to the statements after
  the loop (a \<^verbatim>\<open>break\<close>, or the loop condition being false) with the value of
  \<^verbatim>\<open>lastError\<close>.
\<close>

datatype 'v loop_exit =
    Return 'v
  | Throw js_error
  | AfterLoop "js_error option"

function retry_loop ::
  "string \<Rightarrow> 'v operation \<Rightarrow> nat \<Rightarrow> number \<Rightarrow> number \<Rightarrow> number \<Rightarrow> onRetry_fn option \<Rightarrow>
   shouldRetry_fn option \<Rightarrow> registry \<Rightarrow> nat \<Rightarrow> js_error option \<Rightarrow>
   'v loop_exit \<times> registry \<times> event list"
where
  "retry_loop operationName operation maxRetries baseDelay backoffMultiplier maxDelay onRetry
     shouldRetry reg attempt lastError =
     (if attempt \<le> maxRetries + 1 then
        (case operation attempt of
           Inr result \<Rightarrow> (Return result, reg(operationName := None), [Attempt attempt])
         | Inl error \<Rightarrow>
             (case not_retryable shouldRetry error attempt of
                Inl thrown \<Rightarrow> (Throw thrown, reg, [Attempt attempt])
              | Inr stop \<Rightarrow>
                  if stop then (AfterLoop (Some error), reg, [Attempt attempt])
                  else if attempt > maxRetries then (AfterLoop (Some error), reg, [Attempt attempt])
                  else
                    (let delay = backoff_delay baseDelay backoffMultiplier maxDelay attempt;
                         (exit, reg', events) =
                           retry_loop operationName operation maxRetries baseDelay
                             backoffMultiplier maxDelay onRetry shouldRetry reg (attempt + 1)
                             (Some error)
                     in (exit, reg',
                         [Attempt attempt] @ call_onRetry onRetry error attempt delay
                           @ [Delay delay] @ events))))
      else (AfterLoop lastError, reg, []))"
  by pat_completeness auto
termination
  by (relation "measure (\<lambda>(operationName, operation, maxRetries, baseDelay, backoffMultiplier,
        maxDelay, onRetry, shouldRetry, reg, attempt, lastError). maxRetries + 2 - attempt)") auto

declare retry_loop.simps [simp del]

text \<open>
  \<^verbatim>\<open>(this.retryAttempts.get(operationName) || 0) + 1\<close>: a missing entry, the number 0 and
  the empty string are falsy; a number is incremented; an object is converted to the
  string \<^verbatim>\<open>[object Object]\<close> and a string is kept, and \<^verbatim>\<open>1\<close> is appended.
\<close>

definition or_zero_plus_one :: "entry option \<Rightarrow> entry" where
  "or_zero_plus_one v =
     (case v of
        None \<Rightarrow> Counter 1
      | Some (Counter n) \<Rightarrow> Counter (n + 1)
      | Some (Text s) \<Rightarrow> (if s = [] then Counter 1 else Text (s @ ''1''))
      | Some (CircuitEntry c) \<Rightarrow> Text (''[object Object]'' @ ''1''))"

text \<open>The template literal of line 1936.\<close>

definition failed_after :: "string \<Rightarrow> nat \<Rightarrow> string \<Rightarrow> string" where
  "failed_after operationName maxRetries lastMessage =
     operationName @ '' failed after '' @ string_of_nat (maxRetries + 1)
       @ '' attempts. Last error: '' @ lastMessage"

definition executeWithRetry ::
  "manager \<Rightarrow> string \<Rightarrow> 'v operation \<Rightarrow> retry_options \<Rightarrow> (js_error + 'v) \<times> manager \<times> event list"
where
  "executeWithRetry this operationName operation options =
     (let maxRetries = or_default (opt_maxRetries options) (mgr_maxRetries this);
          baseDelay = or_default (opt_baseDelay options) (mgr_baseDelay this);
          backoffMultiplier = or_default (opt_backoffMultiplier options) (mgr_backoffMultiplier this);
          maxDelay = or_default (opt_maxDelay options) (mgr_maxDelay this);
          onRetry = opt_onRetry options;
          shouldRetry = opt_shouldRetry options
      in case retry_loop operationName operation maxRetries baseDelay backoffMultiplier maxDelay
                onRetry shouldRetry (retryAttempts this) 1 None of
           (Return result, reg, events) \<Rightarrow> (Inr result, this\<lparr>retryAttempts := reg\<rparr>, events)
         | (Throw thrown, reg, events) \<Rightarrow> (Inl thrown, this\<lparr>retryAttempts := reg\<rparr>, events)
         | (AfterLoop lastError, reg, events) \<Rightarrow>
             (let reg' = reg(operationName \<mapsto> or_zero_plus_one (reg operationName))
              in case lastError of
                   None \<Rightarrow>
                     (Inl (TypeError ''Cannot read properties of undefined''),
                      this\<lparr>retryAttempts := reg'\<rparr>, events)
                 | Some e \<Rightarrow>
                     (Inl (Error (failed_after operationName maxRetries (message e))),
                      this\<lparr>retryAttempts := reg'\<rparr>, events)))"

subsection \<open>The circuit breaker, lines 1940 to 1997\<close>

text \<open>
  \<^verbatim>\<open>getCircuitState\<close>: the entry under the key, created when the key is missing. \<open>now\<close> is
  the reading of \<^verbatim>\<open>Date.now()\<close>.
\<close>

definition getCircuitState :: "manager \<Rightarrow> string \<Rightarrow> int \<Rightarrow> entry \<times> manager" where
  "getCircuitState this circuitKey now =
     (case retryAttempts this circuitKey of
        None \<Rightarrow>
          (let c = CircuitEntry
                     \<lparr>state = Closed, failureCount = 0, lastFailureTime = 0, lastSuccessTime = now\<rparr>
           in (c, this\<lparr>retryAttempts := (retryAttempts this)(circuitKey \<mapsto> c)\<rparr>))
      | Some v \<Rightarrow> (v, this))"

record breaker_options =
  opt_failureThreshold :: "nat option"
  opt_resetTimeout :: "int option"
  opt_monitoringPeriod :: "int option"

definition circuit_key :: "string \<Rightarrow> string" where
  "circuit_key operationName = ''circuit_'' @ operationName"

definition circuit_open_message :: "string \<Rightarrow> string" where
  "circuit_open_message operationName =
     ''Circuit breaker is open for '' @ operationName @ ''. Try again later.''"

text \<open>
  \<open>operation\<close> is the outcome of the awaited \<^verbatim>\<open>operation()\<close>, used only when the call is
  made; \<open>now\<close> is the clock at entry and \<open>settled\<close> the clock when the operation has
  settled. The class body is strict code: when the entry under the key is a number or a
  string, the first assignment to a property of it throws a TypeError; on the success
  path that is inside the \<^verbatim>\<open>try\<close>, so the \<^verbatim>\<open>catch\<close> block runs and throws at its first
  statement.
\<close>

definition executeWithCircuitBreaker ::
  "manager \<Rightarrow> string \<Rightarrow> js_error + 'v \<Rightarrow> breaker_options \<Rightarrow> int \<Rightarrow> int \<Rightarrow>
   (js_error + 'v) \<times> manager \<times> event list"
where
  "executeWithCircuitBreaker this operationName operation options now settled =
     (let failureThreshold = or_default (opt_failureThreshold options) 5;
          resetTimeout = or_default (opt_resetTimeout options) 30000;
          circuitKey = circuit_key operationName;
          (v, this1) = getCircuitState this circuitKey now
      in case v of
           CircuitEntry c \<Rightarrow>
             if state c = Open \<and> now - lastFailureTime c < resetTimeout then
               (Inl (Error (circuit_open_message operationName)), this1, [])
             else
               (let c1 = (if state c = Open then c\<lparr>state := HalfOpen\<rparr> else c)
                in case operation of
                     Inr result \<Rightarrow>
                       (Inr result,
                        this1\<lparr>retryAttempts := (retryAttempts this1)(circuitKey \<mapsto>
                           CircuitEntry (c1\<lparr>state := Closed, failureCount := 0,
                                            lastSuccessTime := settled\<rparr>))\<rparr>,
                        [Operation])
                   | Inl error \<Rightarrow>
                       (let c2 = c1\<lparr>failureCount := failureCount c1 + 1,
                                     lastFailureTime := settled\<rparr>;
                            c3 = (if failureCount c2 \<ge> failureThreshold
                                  then c2\<lparr>state := Open\<rparr> else c2)
                        in (Inl error,
                            this1\<lparr>retryAttempts := (retryAttempts this1)(circuitKey \<mapsto>
                               CircuitEntry c3)\<rparr>,
                            [Operation])))
         | _ \<Rightarrow>
             (Inl (TypeError ''Cannot create property failureCount on a primitive''),
              this1, [Operation]))"

subsection \<open>Reading the outcome of a call\<close>

definition result_of :: "'r \<times> manager \<times> event list \<Rightarrow> 'r" where
  "result_of out = fst out"

definition manager_of :: "'r \<times> manager \<times> event list \<Rightarrow> manager" where
  "manager_of out = fst (snd out)"

definition events_of :: "'r \<times> manager \<times> event list \<Rightarrow> event list" where
  "events_of out = snd (snd out)"

text \<open>The attempt numbers with which the operation was invoked, in order.\<close>

fun attempts :: "event list \<Rightarrow> nat list" where
  "attempts [] = []"
| "attempts (Attempt k # events) = k # attempts events"
| "attempts (_ # events) = attempts events"

text \<open>Whether an event is the console line of a failed \<^verbatim>\<open>onRetry\<close>.\<close>

fun is_callback_log :: "event \<Rightarrow> bool" where
  "is_callback_log (CallbackFailed _) = True"
| "is_callback_log _ = False"

text \<open>
  The events of one pass through the loop body in which the operation fails and the loop
  goes on: the invocation, the \<^verbatim>\<open>onRetry\<close> block, the wait.
\<close>

definition retried_attempt ::
  "'v operation \<Rightarrow> number \<Rightarrow> number \<Rightarrow> number \<Rightarrow> onRetry_fn option \<Rightarrow> nat \<Rightarrow>
   event list" where
  "retried_attempt operation baseDelay backoffMultiplier maxDelay onRetry attempt =
     (case operation attempt of
        Inr _ \<Rightarrow> [Attempt attempt]
      | Inl error \<Rightarrow>
          (let delay = backoff_delay baseDelay backoffMultiplier maxDelay attempt
           in [Attempt attempt] @ call_onRetry onRetry error attempt delay @ [Delay delay]))"

text \<open>
  The events of the attempts before attempt \<open>n\<close> of a call of \<^verbatim>\<open>executeWithRetry\<close>, when each
  of them fails and is retried.
\<close>

definition retried_before :: "manager \<Rightarrow> 'v operation \<Rightarrow> retry_options \<Rightarrow> nat \<Rightarrow> event list" where
  "retried_before this operation options n =
     concat (map
       (retried_attempt operation
          (or_default (opt_baseDelay options) (mgr_baseDelay this))
          (or_default (opt_backoffMultiplier options) (mgr_backoffMultiplier this))
          (or_default (opt_maxDelay options) (mgr_maxDelay this))
          (opt_onRetry options))
       [1..<n])"

text \<open>
  Calls of \<^verbatim>\<open>executeWithCircuitBreaker\<close> for one operation name, one after the other, each
  with the outcome of its operation and its two clock readings.
\<close>

fun breaker_calls ::
  "manager \<Rightarrow> string \<Rightarrow> breaker_options \<Rightarrow> ((js_error + 'v) \<times> int \<times> int) list \<Rightarrow> manager" where
  "breaker_calls this operationName options [] = this"
| "breaker_calls this operationName options ((operation, now, settled) # calls) =
     breaker_calls
       (manager_of (executeWithCircuitBreaker this operationName operation options now settled))
       operationName options calls"

subsection \<open>Concrete inputs\<close>

definition always_boom :: "nat operation" where
  "always_boom attempt = Inl (Error ''boom'')"

definition third_time_lucky :: "nat operation" where
  "third_time_lucky attempt = (if attempt < 3 then Inl (Error ''busy'') else Inr 42)"

definition never_retry :: shouldRetry_fn where
  "never_retry error attempt = Inr False"

definition retry_once :: shouldRetry_fn where
  "retry_once error attempt = Inr (attempt < 2)"

definition failing_toast :: onRetry_fn where
  "failing_toast error attempt delay = Inl (Error ''toast failed'')"

definition two_retries :: retry_options where
  "two_retries = no_options\<lparr>opt_maxRetries := Some 2\<rparr>"

definition two_retries_denied :: retry_options where
  "two_retries_denied = no_options\<lparr>opt_maxRetries := Some 2, opt_shouldRetry := Some never_retry\<rparr>"

definition three_retries_denied :: retry_options where
  "three_retries_denied = no_options\<lparr>opt_maxRetries := Some 3, opt_shouldRetry := Some never_retry\<rparr>"

definition three_retries_once :: retry_options where
  "three_retries_once = no_options\<lparr>opt_maxRetries := Some 3, opt_shouldRetry := Some retry_once\<rparr>"

definition breaker_defaults :: breaker_options where
  "breaker_defaults =
     \<lparr>opt_failureThreshold = None, opt_resetTimeout = None, opt_monitoringPeriod = None\<rparr>"

definition threshold_one :: breaker_options where
  "threshold_one = breaker_defaults\<lparr>opt_failureThreshold := Some 1\<rparr>"

definition five_failures :: "((js_error + nat) \<times> int \<times> int) list" where
  "five_failures =
     [(Inl (Error ''boom''), 1000, 1010), (Inl (Error ''boom''), 2000, 2010),
      (Inl (Error ''boom''), 3000, 3010), (Inl (Error ''boom''), 4000, 4010),
      (Inl (Error ''boom''), 5000, 5010)]"

text \<open>The manager after one failed call through the breaker for the operation \<^verbatim>\<open>sync\<close>.\<close>

definition after_sync_failure :: manager where
  "after_sync_failure =
     manager_of (executeWithCircuitBreaker new_manager ''sync''
       (Inl (Error ''boom'') :: js_error + nat) breaker_defaults 1000 1010)"

text \<open>
  The manager after one failed call through the breaker for \<^verbatim>\<open>sync\<close> with a failure threshold
  of 1: the circuit is open.
\<close>

definition opened_at_threshold_one :: manager where
  "opened_at_threshold_one =
     breaker_calls new_manager ''sync'' threshold_one
       [(Inl (Error ''boom'') :: js_error + nat, 1000, 1010)]"

section \<open>Properties\<close>

subsection \<open>Rounding to a double\<close>

text \<open>The binary exponent brackets its argument between two powers of 2.\<close>

lemma bitlen_powi_bounds:
  assumes "0 < p"
  shows "2 powi (bitlen p - 1) \<le> (of_int p :: rat)" and "(of_int p :: rat) < 2 powi bitlen p"
proof -
  from bitlen_bounds [OF assms] have lo: "2 ^ nat (bitlen p - 1) \<le> p" and hi: "p < 2 ^ nat (bitlen p)"
    by simp_all
  have pos: "1 \<le> bitlen p"
    using assms by (simp add: bitlen_alt_def)
  have "(2::rat) powi (bitlen p - 1) = 2 ^ nat (bitlen p - 1)"
    using pos by (simp add: power_int_def)
  also have "\<dots> = of_int (2 ^ nat (bitlen p - 1))"
    by simp
  also have "\<dots> \<le> of_int p"
    using lo by (simp only: of_int_le_iff)
  finally show "2 powi (bitlen p - 1) \<le> (of_int p :: rat)" .
  have "(of_int p :: rat) < of_int (2 ^ nat (bitlen p))"
    using hi by (simp only: of_int_less_iff)
  also have "\<dots> = 2 powi bitlen p"
    using pos by (simp add: power_int_def)
  finally show "(of_int p :: rat) < 2 powi bitlen p" .
qed

lemma ilog2_bounds:
  assumes "0 < a"
  shows "2 powi ilog2 a \<le> a" and "a < 2 powi (ilog2 a + 1)"
proof -
  obtain p q where pq: "quotient_of a = (p, q)"
    by (cases "quotient_of a")
  then have q: "0 < q" and a: "a = of_int p / of_int q"
    by (simp_all add: quotient_of_denom_pos quotient_of_div)
  with assms have p: "0 < p"
    by (simp add: zero_less_divide_iff)
  let ?d = "bitlen p - bitlen q"
  note bp = bitlen_powi_bounds [OF p] and bq = bitlen_powi_bounds [OF q]
  have qpos: "(0::rat) < of_int q"
    using q by simp
  have upper: "a < 2 powi (?d + 1)"
  proof -
    have "a * of_int q = of_int p"
      using a qpos by simp
    also have "\<dots> < 2 powi bitlen p"
      by (rule bp(2))
    also have "\<dots> = 2 powi (?d + 1) * 2 powi (bitlen q - 1)"
      by (simp flip: power_int_add)
    also have "\<dots> \<le> 2 powi (?d + 1) * of_int q"
      using bq(1) by (simp add: mult_left_mono)
    finally show ?thesis
      using qpos by simp
  qed
  have lower: "2 powi (?d - 1) \<le> a"
  proof -
    have "(2::rat) powi (?d - 1) * of_int q \<le> 2 powi (?d - 1) * 2 powi bitlen q"
      using bq(2) by (simp add: mult_left_mono less_imp_le)
    also have "\<dots> = 2 powi (bitlen p - 1)"
      by (simp flip: power_int_add)
    also have "\<dots> \<le> of_int p"
      by (rule bp(1))
    also have "\<dots> = a * of_int q"
      using a qpos by simp
    finally show ?thesis
      using qpos by simp
  qed
  have eq: "ilog2 a = (if 2 powi ?d \<le> a then ?d else ?d - 1)"
    by (simp add: ilog2_def pq)
  show "2 powi ilog2 a \<le> a"
    using lower by (simp add: eq)
  show "a < 2 powi (ilog2 a + 1)"
    using upper by (auto simp: eq not_le)
qed


lemma ilog2_mono:
  assumes "0 < a" and "a \<le> b"
  shows "ilog2 a \<le> ilog2 b"
proof -
  have "0 < b"
    using assms by simp
  have "(2::rat) powi ilog2 a \<le> a"
    by (rule ilog2_bounds [OF assms(1)])
  also note \<open>a \<le> b\<close>
  also have "b < 2 powi (ilog2 b + 1)"
    by (rule ilog2_bounds [OF \<open>0 < b\<close>])
  finally have "ilog2 a < ilog2 b + 1"
    by (metis (no_types) linorder_not_le one_le_numeral power_int_increasing)
  then show ?thesis
    by simp
qed


text \<open>Rounding to an integer is monotone and leaves integers as they are.\<close>

lemma rne_of_int: "rne (of_int n) = n"
  by (simp add: rne_def)

lemma rne_floor: "rne t = \<lfloor>t\<rfloor> \<or> rne t = \<lfloor>t\<rfloor> + 1"
  by (simp add: rne_def Let_def)

lemma rne_mono:
  assumes "s \<le> t"
  shows "rne s \<le> rne t"
proof (cases "\<lfloor>s\<rfloor> = \<lfloor>t\<rfloor>")
  case True
  with assms have "s - of_int \<lfloor>t\<rfloor> \<le> t - of_int \<lfloor>t\<rfloor>"
    by simp
  with True show ?thesis
    by (auto simp: rne_def Let_def)
next
  case False
  with assms have "\<lfloor>s\<rfloor> + 1 \<le> \<lfloor>t\<rfloor>"
    using floor_mono [of s t] by simp
  with rne_floor [of s] rne_floor [of t] show ?thesis
    by auto
qed

lemma rne_ge: "of_int n \<le> t \<Longrightarrow> n \<le> rne t"
  using rne_mono [of "of_int n" t] by (simp add: rne_of_int)

lemma rne_le: "t \<le> of_int n \<Longrightarrow> rne t \<le> n"
  using rne_mono [of t "of_int n"] by (simp add: rne_of_int)

text \<open>
  The nearest double of a positive rational lies in the closed binade of the rational, and
  it grows with the rational.
\<close>

lemma ulp_pos: "0 < ulp m"
  by (simp add: ulp_def)

lemma exponent_mono: "0 < a \<Longrightarrow> a \<le> b \<Longrightarrow> exponent a \<le> exponent b"
  using ilog2_mono [of a b] by (simp add: exponent_def)

lemma ulp_times53: "2 ^ 53 * ulp m = 2 powi (exponent m + 1)"
proof -
  have e: "exponent m + 1 = (exponent m - 52) + 53"
    by simp
  have "(2::rat) powi (exponent m + 1) = 2 powi (exponent m - 52) * 2 powi 53"
    by (subst e, rule power_int_add) simp
  then show ?thesis
    by (simp add: ulp_def)
qed

lemma ulp_times52: "2 ^ 52 * ulp m = 2 powi exponent m"
proof -
  have e: "exponent m = (exponent m - 52) + 52"
    by simp
  have "(2::rat) powi exponent m = 2 powi (exponent m - 52) * 2 powi 52"
    by (subst e, rule power_int_add) simp
  then show ?thesis
    by (simp add: ulp_def)
qed

lemma scaled_less:
  assumes "0 < m"
  shows "m / ulp m < 2 ^ 53"
proof -
  have "m < 2 powi (ilog2 m + 1)"
    by (rule ilog2_bounds [OF assms])
  also have "\<dots> \<le> 2 powi (exponent m + 1)"
    by (rule power_int_increasing) (simp_all add: exponent_def)
  also have "\<dots> = 2 ^ 53 * ulp m"
    by (rule ulp_times53 [symmetric])
  finally show ?thesis
    using ulp_pos [of m] by (simp add: pos_divide_less_eq)
qed

lemma scaled_ge:
  assumes "0 < m" and "exponent m = ilog2 m"
  shows "2 ^ 52 \<le> m / ulp m"
proof -
  have "2 ^ 52 * ulp m = 2 powi ilog2 m"
    using ulp_times52 [of m] assms(2) by simp
  also have "\<dots> \<le> m"
    by (rule ilog2_bounds [OF assms(1)])
  finally show ?thesis
    using ulp_pos [of m] by (simp add: pos_le_divide_eq)
qed

lemma quantize_nonneg:
  assumes "0 < m"
  shows "0 \<le> quantize m"
proof -
  have "0 \<le> m / ulp m"
    using assms ulp_pos [of m] by simp
  then have "0 \<le> rne (m / ulp m)"
    using rne_ge [of 0 "m / ulp m"] by simp
  then show ?thesis
    using ulp_pos [of m] by (simp add: quantize_def)
qed

lemma quantize_le:
  assumes "0 < m"
  shows "quantize m \<le> 2 powi (exponent m + 1)"
proof -
  have "rne (m / ulp m) \<le> 2 ^ 53"
    using scaled_less [OF assms] rne_le [of "m / ulp m" "2 ^ 53"] by simp
  then have "(of_int (rne (m / ulp m)) :: rat) \<le> of_int (2 ^ 53)"
    by (simp only: of_int_le_iff)
  then have "quantize m \<le> 2 ^ 53 * ulp m"
    using ulp_pos [of m] by (simp add: quantize_def)
  then show ?thesis
    using ulp_times53 [of m] by simp
qed

lemma quantize_ge:
  assumes "0 < m" and "exponent m = ilog2 m"
  shows "2 powi exponent m \<le> quantize m"
proof -
  have "2 ^ 52 \<le> rne (m / ulp m)"
    using scaled_ge [OF assms] rne_ge [of "2 ^ 52" "m / ulp m"] by simp
  then have "(of_int (2 ^ 52) :: rat) \<le> of_int (rne (m / ulp m))"
    by (simp only: of_int_le_iff)
  then have "2 ^ 52 * ulp m \<le> quantize m"
    using ulp_pos [of m] by (simp add: quantize_def)
  then show ?thesis
    using ulp_times52 [of m] by simp
qed

lemma quantize_mono:
  assumes "0 < a" and "a \<le> b"
  shows "quantize a \<le> quantize b"
proof (cases "exponent a = exponent b")
  case True
  then have u: "ulp a = ulp b"
    by (simp add: ulp_def)
  have "a / ulp b \<le> b / ulp b"
    using assms(2) ulp_pos [of b] by (simp add: divide_right_mono)
  then have "rne (a / ulp b) \<le> rne (b / ulp b)"
    by (rule rne_mono)
  then have "(of_int (rne (a / ulp b)) :: rat) \<le> of_int (rne (b / ulp b))"
    by (simp only: of_int_le_iff)
  then show ?thesis
    using ulp_pos [of b] by (simp add: quantize_def u)
next
  case False
  with exponent_mono [OF assms] have less: "exponent a + 1 \<le> exponent b"
    by simp
  have b: "0 < b"
    using assms by simp
  have normal: "exponent b = ilog2 b"
    using less by (auto simp: exponent_def max_def split: if_splits)
  have "quantize a \<le> 2 powi (exponent a + 1)"
    by (rule quantize_le [OF assms(1)])
  also have "\<dots> \<le> 2 powi exponent b"
    using less by (rule power_int_increasing) simp
  also have "\<dots> \<le> quantize b"
    by (rule quantize_ge [OF b normal])
  finally show ?thesis .
qed

lemma overflows_iff:
  assumes "0 < m"
  shows "overflows m \<longleftrightarrow> 2 powi 1024 \<le> quantize m"
proof
  assume over: "overflows m"
  show "2 powi 1024 \<le> quantize m"
  proof (cases "1024 \<le> exponent m")
    case True
    then have normal: "exponent m = ilog2 m"
      by (auto simp: exponent_def max_def split: if_splits)
    have "(2::rat) powi 1024 \<le> 2 powi exponent m"
      using True by (rule power_int_increasing) simp
    also have "\<dots> \<le> quantize m"
      by (rule quantize_ge [OF assms normal])
    finally show ?thesis .
  next
    case False
    with over have "exponent m = 1023" "rne (m / ulp m) = 2 ^ 53"
      by (simp_all add: overflows_def)
    then have "quantize m = 2 ^ 53 * ulp m"
      by (simp add: quantize_def)
    also have "\<dots> = 2 powi 1024"
      using \<open>exponent m = 1023\<close> ulp_times53 [of m] by simp
    finally show ?thesis
      by simp
  qed
next
  assume big: "2 powi 1024 \<le> quantize m"
  show "overflows m"
  proof (rule ccontr)
    assume no: "\<not> overflows m"
    then have e: "exponent m \<le> 1023"
      by (auto simp: overflows_def split: if_splits)
    show False
    proof (cases "exponent m = 1023")
      case True
      with no have "rne (m / ulp m) \<noteq> 2 ^ 53"
        by (simp add: overflows_def)
      moreover have "rne (m / ulp m) \<le> 2 ^ 53"
        using scaled_less [OF assms] rne_le [of "m / ulp m" "2 ^ 53"] by simp
      ultimately have "rne (m / ulp m) \<le> 2 ^ 53 - 1"
        by simp
      then have "(of_int (rne (m / ulp m)) :: rat) \<le> of_int (2 ^ 53 - 1)"
        by (simp only: of_int_le_iff)
      then have "quantize m \<le> (2 ^ 53 - 1) * ulp m"
        using ulp_pos [of m] by (simp add: quantize_def)
      also have "\<dots> < 2 ^ 53 * ulp m"
        using ulp_pos [of m] by simp
      also have "\<dots> = 2 powi 1024"
        using True ulp_times53 [of m] by simp
      finally show False
        using big by simp
    next
      case False
      with e have "exponent m + 1 \<le> 1023"
        by simp
      have "quantize m \<le> 2 powi (exponent m + 1)"
        by (rule quantize_le [OF assms])
      also have "\<dots> \<le> 2 powi 1023"
        using \<open>exponent m + 1 \<le> 1023\<close> by (rule power_int_increasing) simp
      also have "\<dots> < 2 powi 1024"
        by (rule power_int_strict_increasing) simp_all
      finally show False
        using big by simp
    qed
  qed
qed


text \<open>
  Rounding is monotone on the rationals from 0 on, gives Infinity from \<open>2 powi 1024\<close> on, and
  leaves a double as it is.
\<close>

lemma fl_positive:
  assumes "0 < x"
  shows "fl x = (if 2 powi 1024 \<le> quantize x then PosInfinity else Finite (quantize x))"
  using assms by (simp add: fl_def overflows_iff del: power_int_numeral)

lemma fl_mono:
  assumes "0 \<le> x" and "x \<le> y"
  shows "js_le (fl x) (fl y)"
proof (cases "x = 0")
  case True
  show ?thesis
  proof (cases "y = 0")
    case True
    with \<open>x = 0\<close> show ?thesis by (simp add: fl_def)
  next
    case False
    with assms True have "0 < y" by simp
    with \<open>x = 0\<close> quantize_nonneg [of y] show ?thesis
      by (simp add: fl_positive del: power_int_numeral) (simp add: fl_def)
  qed
next
  case False
  with assms have x: "0 < x" and y: "0 < y"
    by simp_all
  from quantize_mono [OF x assms(2)] show ?thesis
    by (simp add: fl_positive x y del: power_int_numeral)
qed

lemma fl_nonneg:
  assumes "0 \<le> x"
  shows "js_le (Finite 0) (fl x)"
  using fl_mono [of 0 x] assms by (simp add: fl_def)


lemma quantize_exact:
  assumes "0 < k" and "k < 2 ^ 53" and "- 1074 \<le> e"
  shows "quantize (of_int k * 2 powi e) = of_int k * 2 powi e"
proof -
  let ?x = "of_int k * 2 powi e :: rat"
  have x: "0 < ?x"
    using assms(1) by simp
  have "?x < of_int (2 ^ 53) * 2 powi e"
    using assms(2) by (simp only: of_int_less_iff mult_less_cancel_right_pos zero_less_power_int
        zero_less_numeral)
  also have "\<dots> = 2 powi 53 * 2 powi e"
    by simp
  also have "\<dots> = 2 powi (53 + e)"
    by (rule power_int_add [symmetric]) simp
  finally have "2 powi ilog2 ?x < (2::rat) powi (53 + e)"
    using ilog2_bounds(1) [OF x] by simp
  then have "ilog2 ?x < 53 + e"
    by (metis (no_types) linorder_not_le one_le_numeral power_int_increasing)
  with assms(3) have g: "0 \<le> e - (exponent ?x - 52)"
    by (simp add: exponent_def)
  define g where "g = nat (e - (exponent ?x - 52))"
  define u where "u = ulp ?x"
  define p where "p = (2::rat) powi e"
  have e: "e = (exponent ?x - 52) + int g"
    using g by (simp add: g_def)
  have "(2::rat) powi e = 2 powi (exponent ?x - 52) * 2 powi int g"
    by (subst e, rule power_int_add) simp
  then have p: "p = u * 2 ^ g"
    by (simp add: p_def u_def ulp_def)
  have u: "0 < u"
    by (simp add: u_def ulp_pos)
  have scaled: "of_int k * p / u = of_int (k * 2 ^ g)"
    using u by (simp add: p)
  have "rne (of_int k * p / u) = k * 2 ^ g"
    unfolding scaled by (rule rne_of_int)
  then have "of_int (rne (of_int k * p / u)) * u = of_int (k * 2 ^ g) * u"
    by simp
  also have "\<dots> = of_int k * p"
    by (simp add: p)
  finally show ?thesis
    by (simp add: quantize_def p_def u_def)
qed

lemma fl_exact_positive:
  assumes "0 < k" and "k < 2 ^ 53" and "- 1074 \<le> e" and "e \<le> 971"
  shows "fl (of_int k * 2 powi e) = Finite (of_int k * 2 powi e)"
proof -
  let ?x = "of_int k * 2 powi e :: rat"
  have x: "0 < ?x"
    using assms(1) by simp
  have "?x < of_int (2 ^ 53) * 2 powi e"
    using assms(2) by (simp only: of_int_less_iff mult_less_cancel_right_pos zero_less_power_int
        zero_less_numeral)
  also have "\<dots> = 2 powi 53 * 2 powi e"
    by simp
  also have "\<dots> = 2 powi (53 + e)"
    by (rule power_int_add [symmetric]) simp
  also have "\<dots> \<le> 2 powi 1024"
    using assms(4) by (intro power_int_increasing) simp_all
  finally have "?x < 2 powi 1024" .
  then show ?thesis
    using x by (simp add: fl_positive quantize_exact [OF assms(1-3)] del: power_int_numeral)
qed


lemma fl_one: "fl 1 = Finite 1"
  using fl_exact_positive [of 1 0] by simp

lemma fl_not_NaN: "fl x \<noteq> NaN"
  by (simp add: fl_def)

lemma fl_not_NegInfinity: "0 \<le> x \<Longrightarrow> fl x \<noteq> NegInfinity"
  by (simp add: fl_def)

lemma fl_Finite_nonneg:
  assumes "0 \<le> x" and "fl x = Finite y"
  shows "0 \<le> y"
  using fl_nonneg [OF assms(1)] assms(2) by simp

subsection \<open>Monotonicity and sign of the operations\<close>

lemma js_le_PosInfinity: "js_le x PosInfinity \<longleftrightarrow> x \<noteq> NaN"
  by (cases x) simp_all

lemma js_le_refl: "x \<noteq> NaN \<Longrightarrow> js_le x x"
  by (cases x) simp_all

lemma Math_pow_ge_one:
  assumes "js_less (Finite 1) m"
  shows "js_le (Finite 1) (Math_pow m k)"
proof (cases m)
  case (Finite a)
  with assms have "1 \<le> a ^ k"
    by simp
  then have "js_le (fl 1) (fl (a ^ k))"
    by (intro fl_mono) simp_all
  with Finite show ?thesis
    by (simp add: Math_pow_def fl_one)
qed (use assms in \<open>simp_all add: Math_pow_def\<close>)

lemma Math_pow_mono:
  assumes "js_less (Finite 1) m"
  shows "js_le (Math_pow m k) (Math_pow m (k + 1))"
proof (cases m)
  case (Finite a)
  with assms have a: "1 < a"
    by simp
  then have "a ^ k \<le> a ^ (k + 1)"
    by (intro power_increasing) simp_all
  moreover have "0 \<le> a ^ k"
    using a by simp
  ultimately have "js_le (fl (a ^ k)) (fl (a ^ (k + 1)))"
    by (intro fl_mono)
  moreover have "js_le (Finite 1) (fl a)"
    using fl_mono [of 1 a] a by (simp add: fl_one)
  ultimately show ?thesis
    using Finite by (simp add: Math_pow_def)
qed (use assms in \<open>simp_all add: Math_pow_def\<close>)

lemma js_times_mono:
  assumes "js_less (Finite 0) b" and "js_le (Finite 1) p" and "js_le p q"
  shows "js_le (js_times b p) (js_times b q)"
proof (cases b)
  case b: (Finite c)
  with assms(1) have c: "0 < c"
    by simp
  show ?thesis
  proof (cases p)
    case p: (Finite x)
    with assms(2) have x: "1 \<le> x"
      by simp
    show ?thesis
    proof (cases q)
      case (Finite y)
      with assms(3) p have "x \<le> y"
        by simp
      with c x have "0 \<le> c * x" "c * x \<le> c * y"
        by simp_all
      then have "js_le (fl (c * x)) (fl (c * y))"
        by (rule fl_mono)
      with b p Finite show ?thesis
        by simp
    next
      case PosInfinity
      with b p c show ?thesis
        by (simp add: js_le_PosInfinity fl_not_NaN)
    qed (use assms(3) p in simp_all)
  next
    case PosInfinity
    with assms(3) have "q = PosInfinity"
      by (cases q) simp_all
    with PosInfinity b c show ?thesis
      by simp
  qed (use assms(2) in simp_all)
next
  case PosInfinity
  have pos: "js_times PosInfinity v = PosInfinity" if "js_le (Finite 1) v" for v
    using that by (cases v) auto
  have "js_le (Finite 1) q"
    using assms(2,3) by (cases p; cases q) auto
  with pos [of p] pos [of q] assms(2) PosInfinity show ?thesis
    by simp
qed (use assms(1) in simp_all)

lemma Math_min_mono:
  assumes "js_le x y" and "cap \<noteq> NaN"
  shows "js_le (Math_min x cap) (Math_min y cap)"
  using assms by (cases x; cases y; cases cap) (auto simp: min_le_iff_disj)

subsection \<open>The events of the retry loop\<close>

lemma attempts_append: "attempts (xs @ ys) = attempts xs @ attempts ys"
  by (induction xs rule: attempts.induct) simp_all

lemma attempts_call_onRetry: "attempts (call_onRetry onRetry error attempt delay) = []"
  by (simp add: call_onRetry_def split: option.splits sum.splits)

lemma attempts_retried_attempt:
  "attempts (retried_attempt operation baseDelay backoffMultiplier maxDelay onRetry k) = [k]"
  by (simp add: retried_attempt_def attempts_append attempts_call_onRetry Let_def split: sum.splits)

lemma attempts_rounds:
  "attempts (concat (map (retried_attempt operation baseDelay backoffMultiplier maxDelay onRetry) [a..<n]))
     = [a..<n]"
proof (induction n)
  case 0
  show ?case by simp
next
  case (Suc n)
  show ?case
  proof (cases "a \<le> n")
    case True
    with Suc show ?thesis
      by (simp add: attempts_append attempts_retried_attempt)
  next
    case False
    then show ?thesis by simp
  qed
qed

text \<open>
  \<^verbatim>\<open>lastError\<close> is read only after the loop, and every pass through the body that fails
  assigns it: its value at the start of a pass does not matter.
\<close>

lemma retry_loop_lastError:
  assumes "attempt \<le> maxRetries + 1"
  shows "retry_loop operationName operation maxRetries baseDelay backoffMultiplier maxDelay onRetry
           shouldRetry reg attempt lastError
       = retry_loop operationName operation maxRetries baseDelay backoffMultiplier maxDelay onRetry
           shouldRetry reg attempt lastError'"
  using assms
  by (simp add: retry_loop.simps [of _ _ _ _ _ _ _ _ _ attempt lastError]
        retry_loop.simps [of _ _ _ _ _ _ _ _ _ attempt lastError'])

text \<open>The four ways in which one pass through the body ends.\<close>

lemma retry_loop_success:
  assumes "attempt \<le> maxRetries + 1" and "operation attempt = Inr result"
  shows "retry_loop operationName operation maxRetries baseDelay backoffMultiplier maxDelay onRetry
           shouldRetry reg attempt lastError
       = (Return result, reg(operationName := None), [Attempt attempt])"
  using assms by (subst retry_loop.simps) simp

lemma retry_loop_denied:
  assumes "attempt \<le> maxRetries + 1" and "operation attempt = Inl error"
    and "not_retryable shouldRetry error attempt = Inr True"
  shows "retry_loop operationName operation maxRetries baseDelay backoffMultiplier maxDelay onRetry
           shouldRetry reg attempt lastError
       = (AfterLoop (Some error), reg, [Attempt attempt])"
  using assms by (subst retry_loop.simps) simp

lemma retry_loop_last:
  assumes "attempt = maxRetries + 1" and "operation attempt = Inl error"
    and "not_retryable shouldRetry error attempt = Inr False"
  shows "retry_loop operationName operation maxRetries baseDelay backoffMultiplier maxDelay onRetry
           shouldRetry reg attempt lastError
       = (AfterLoop (Some error), reg, [Attempt attempt])"
  using assms by (subst retry_loop.simps) simp

lemma retry_loop_retried:
  assumes "attempt \<le> maxRetries" and "operation attempt = Inl error"
    and "not_retryable shouldRetry error attempt = Inr False"
  shows "retry_loop operationName operation maxRetries baseDelay backoffMultiplier maxDelay onRetry
           shouldRetry reg attempt lastError
       = (case retry_loop operationName operation maxRetries baseDelay backoffMultiplier maxDelay
                 onRetry shouldRetry reg (attempt + 1) lastError' of
            (exit, reg', events) \<Rightarrow>
              (exit, reg',
               retried_attempt operation baseDelay backoffMultiplier maxDelay onRetry attempt @ events))"
proof -
  have "attempt + 1 \<le> maxRetries + 1"
    using assms(1) by simp
  from retry_loop_lastError [OF this, of operationName operation baseDelay backoffMultiplier
      maxDelay onRetry shouldRetry reg "Some error" lastError']
  show ?thesis
    using assms
    by (simp add: retry_loop.simps [of _ _ _ _ _ _ _ _ _ attempt lastError] retried_attempt_def
          Let_def split: prod.splits)
qed

text \<open>A run of attempts that fail and are retried.\<close>

lemma retry_loop_prefix:
  assumes "a \<le> n" and "n \<le> maxRetries + 1"
    and "\<And>k. a \<le> k \<Longrightarrow> k < n \<Longrightarrow>
           \<exists>error. operation k = Inl error \<and> not_retryable shouldRetry error k = Inr False"
  shows "retry_loop operationName operation maxRetries baseDelay backoffMultiplier maxDelay onRetry
           shouldRetry reg a lastError
       = (case retry_loop operationName operation maxRetries baseDelay backoffMultiplier maxDelay
                 onRetry shouldRetry reg n lastError of
            (exit, reg', events) \<Rightarrow>
              (exit, reg',
               concat (map (retried_attempt operation baseDelay backoffMultiplier maxDelay onRetry)
                 [a..<n]) @ events))"
  using assms
proof (induction n rule: dec_induct)
  case base
  show ?case by (simp split: prod.splits)
next
  case (step n)
  from step.prems(2) [of n] step.hyps obtain error
    where err: "operation n = Inl error" "not_retryable shouldRetry error n = Inr False"
    by auto
  have n: "n \<le> maxRetries"
    using step.prems(1) by simp
  have upto: "retry_loop operationName operation maxRetries baseDelay backoffMultiplier maxDelay
           onRetry shouldRetry reg a lastError
       = (case retry_loop operationName operation maxRetries baseDelay backoffMultiplier maxDelay
                 onRetry shouldRetry reg n lastError of
            (exit, reg', events) \<Rightarrow>
              (exit, reg',
               concat (map (retried_attempt operation baseDelay backoffMultiplier maxDelay onRetry)
                 [a..<n]) @ events))"
    using step by simp
  have one: "retry_loop operationName operation maxRetries baseDelay backoffMultiplier maxDelay
           onRetry shouldRetry reg n lastError
       = (case retry_loop operationName operation maxRetries baseDelay backoffMultiplier maxDelay
                 onRetry shouldRetry reg (n + 1) lastError of
            (exit, reg', events) \<Rightarrow>
              (exit, reg',
               retried_attempt operation baseDelay backoffMultiplier maxDelay onRetry n @ events))"
    using n err by (rule retry_loop_retried)
  show ?case
    using step.hyps by (simp add: upto one split: prod.splits)
qed


lemma executeWithRetry_run:
  assumes "1 \<le> n" and "n \<le> or_default (opt_maxRetries options) (mgr_maxRetries this) + 1"
    and "\<And>k. 1 \<le> k \<Longrightarrow> k < n \<Longrightarrow>
           \<exists>error. operation k = Inl error \<and>
             not_retryable (opt_shouldRetry options) error k = Inr False"
    and "retry_loop operationName operation
           (or_default (opt_maxRetries options) (mgr_maxRetries this))
           (or_default (opt_baseDelay options) (mgr_baseDelay this))
           (or_default (opt_backoffMultiplier options) (mgr_backoffMultiplier this))
           (or_default (opt_maxDelay options) (mgr_maxDelay this))
           (opt_onRetry options) (opt_shouldRetry options) (retryAttempts this) n None
         = (exit, reg, events)"
  shows "retry_loop operationName operation
           (or_default (opt_maxRetries options) (mgr_maxRetries this))
           (or_default (opt_baseDelay options) (mgr_baseDelay this))
           (or_default (opt_backoffMultiplier options) (mgr_backoffMultiplier this))
           (or_default (opt_maxDelay options) (mgr_maxDelay this))
           (opt_onRetry options) (opt_shouldRetry options) (retryAttempts this) 1 None
         = (exit, reg, retried_before this operation options n @ events)"
  using retry_loop_prefix [OF assms(1) assms(2) assms(3), of operationName
      "or_default (opt_baseDelay options) (mgr_baseDelay this)"
      "or_default (opt_backoffMultiplier options) (mgr_backoffMultiplier this)"
      "or_default (opt_maxDelay options) (mgr_maxDelay this)"
      "opt_onRetry options" "retryAttempts this" None] assms(4)
  by (simp add: retried_before_def)

lemma attempts_retried_before: "attempts (retried_before this operation options n) = [1..<n]"
  by (simp add: retried_before_def attempts_rounds)

lemma upt_1_4: "[Suc 0..<4] = [Suc 0, 2, 3]"
  by code_simp

subsection \<open>Exhausting the retries\<close>

text \<open>
  Claim C1, as amended. When the operation fails on every invocation, and \<^verbatim>\<open>shouldRetry\<close> is
  missing or returns true at each of these failures, \<^verbatim>\<open>executeWithRetry\<close> with
  \<^verbatim>\<open>maxRetries\<close> = \<open>m\<close> invokes the operation with the attempt numbers 1, ..., \<open>m + 1\<close>, in
  this order and no others, each but the last followed by the \<^verbatim>\<open>onRetry\<close> block and the
  wait, and then throws an error whose message ends with the message of the error of
  attempt \<open>m + 1\<close>.
\<close>

theorem retries_exhausted:
  assumes fails: "\<forall>k. \<exists>error. operation k = Inl error"
    and retry: "opt_shouldRetry options = None \<or>
       (\<exists>f. opt_shouldRetry options = Some f \<and>
          (\<forall>k error. operation k = Inl error \<longrightarrow> f error k = Inr True))"
    and m: "or_default (opt_maxRetries options) (mgr_maxRetries this) = m"
  shows "attempts (events_of (executeWithRetry this operationName operation options)) = [1..<m + 2]
     \<and> events_of (executeWithRetry this operationName operation options)
         = retried_before this operation options (m + 1) @ [Attempt (m + 1)]
     \<and> (\<exists>error. operation (m + 1) = Inl error \<and>
           result_of (executeWithRetry this operationName operation options)
             = Inl (Error (failed_after operationName m (message error))))"
proof -
  have each: "\<exists>error. operation k = Inl error \<and>
      not_retryable (opt_shouldRetry options) error k = Inr False" for k
  proof -
    from fails obtain error where "operation k = Inl error"
      by blast
    with retry show ?thesis
      by (auto simp: not_retryable_def)
  qed
  then obtain error where error: "operation (m + 1) = Inl error"
      "not_retryable (opt_shouldRetry options) error (m + 1) = Inr False"
    by blast
  have "retry_loop operationName operation m
           (or_default (opt_baseDelay options) (mgr_baseDelay this))
           (or_default (opt_backoffMultiplier options) (mgr_backoffMultiplier this))
           (or_default (opt_maxDelay options) (mgr_maxDelay this))
           (opt_onRetry options) (opt_shouldRetry options) (retryAttempts this) (m + 1) None
         = (AfterLoop (Some error), retryAttempts this, [Attempt (m + 1)])"
    using error by (intro retry_loop_last) simp_all
  then have "retry_loop operationName operation
           (or_default (opt_maxRetries options) (mgr_maxRetries this))
           (or_default (opt_baseDelay options) (mgr_baseDelay this))
           (or_default (opt_backoffMultiplier options) (mgr_backoffMultiplier this))
           (or_default (opt_maxDelay options) (mgr_maxDelay this))
           (opt_onRetry options) (opt_shouldRetry options) (retryAttempts this) 1 None
         = (AfterLoop (Some error), retryAttempts this,
            retried_before this operation options (m + 1) @ [Attempt (m + 1)])"
    using each m by (intro executeWithRetry_run) simp_all
  then have out: "executeWithRetry this operationName operation options
      = (Inl (Error (failed_after operationName m (message error))),
         this\<lparr>retryAttempts := (retryAttempts this)(operationName \<mapsto>
           or_zero_plus_one (retryAttempts this operationName))\<rparr>,
         retried_before this operation options (m + 1) @ [Attempt (m + 1)])"
    using m by (simp add: executeWithRetry_def Let_def)
  show ?thesis
    using error(1)
    by (simp add: out events_of_def result_of_def attempts_append attempts_retried_before)
qed

text \<open>With two retries and an operation that always fails: three invocations.\<close>

theorem retries_exhausted_witness:
  "attempts (events_of (executeWithRetry new_manager ''load'' always_boom two_retries)) = [1, 2, 3]
   \<and> result_of (executeWithRetry new_manager ''load'' always_boom two_retries)
       = Inl (Error ''load failed after 3 attempts. Last error: boom'')"
proof -
  have fails: "\<forall>k. \<exists>error. always_boom k = Inl error"
    by (simp add: always_boom_def)
  have retry: "opt_shouldRetry two_retries = None \<or>
       (\<exists>f. opt_shouldRetry two_retries = Some f \<and>
          (\<forall>k error. always_boom k = Inl error \<longrightarrow> f error k = Inr True))"
    by (simp add: two_retries_def no_options_def)
  have m: "or_default (opt_maxRetries two_retries) (mgr_maxRetries new_manager) = 2"
    by (simp add: two_retries_def no_options_def or_default_def)
  have msg: "failed_after ''load'' 2 ''boom'' = ''load failed after 3 attempts. Last error: boom''"
    by code_simp
  from retries_exhausted [OF fails retry m, of "''load''"]
  have "attempts (events_of (executeWithRetry new_manager ''load'' always_boom two_retries))
          = [1..<2 + 2]"
    and "\<exists>error. always_boom (2 + 1) = Inl error \<and>
           result_of (executeWithRetry new_manager ''load'' always_boom two_retries)
             = Inl (Error (failed_after ''load'' 2 (message error)))"
    by blast+
  then show ?thesis
    by (auto simp: always_boom_def msg upt_1_4)
qed

text \<open>
  Claim C1 as it is written speaks of every configuration with \<^verbatim>\<open>maxRetries\<close> = \<open>m\<close>. With
  \<^verbatim>\<open>maxRetries\<close> = 2 and a \<^verbatim>\<open>shouldRetry\<close> that returns false, the operation that always fails
  is invoked once, not three times.
\<close>

theorem denied_retry_cuts_attempts_short:
  "attempts (events_of (executeWithRetry new_manager ''load'' always_boom two_retries_denied)) = [1]
   \<and> attempts (events_of (executeWithRetry new_manager ''load'' always_boom two_retries_denied))
       \<noteq> [1, 2, 3]
   \<and> opt_maxRetries two_retries_denied = Some 2"
  by code_simp

subsection \<open>Stopping at a denied retry\<close>

lemma executeWithRetry_after_loop:
  assumes "retry_loop operationName operation
           (or_default (opt_maxRetries options) (mgr_maxRetries this))
           (or_default (opt_baseDelay options) (mgr_baseDelay this))
           (or_default (opt_backoffMultiplier options) (mgr_backoffMultiplier this))
           (or_default (opt_maxDelay options) (mgr_maxDelay this))
           (opt_onRetry options) (opt_shouldRetry options) (retryAttempts this) 1 None
         = (AfterLoop (Some error), reg, events)"
  shows "executeWithRetry this operationName operation options
       = (Inl (Error (failed_after operationName
                 (or_default (opt_maxRetries options) (mgr_maxRetries this)) (message error))),
          this\<lparr>retryAttempts := reg(operationName \<mapsto> or_zero_plus_one (reg operationName))\<rparr>,
          events)"
  using assms by (simp add: executeWithRetry_def Let_def)

lemma executeWithRetry_return:
  assumes "retry_loop operationName operation
           (or_default (opt_maxRetries options) (mgr_maxRetries this))
           (or_default (opt_baseDelay options) (mgr_baseDelay this))
           (or_default (opt_backoffMultiplier options) (mgr_backoffMultiplier this))
           (or_default (opt_maxDelay options) (mgr_maxDelay this))
           (opt_onRetry options) (opt_shouldRetry options) (retryAttempts this) 1 None
         = (Return result, reg, events)"
  shows "executeWithRetry this operationName operation options
       = (Inr result, this\<lparr>retryAttempts := reg\<rparr>, events)"
  using assms by (simp add: executeWithRetry_def Let_def)

text \<open>
  Claim C4. When a \<^verbatim>\<open>shouldRetry\<close> predicate is supplied and returns false at the failure of
  attempt \<open>n\<close> (the attempts before it having failed and been retried), the invocation of
  attempt \<open>n\<close> is the last event of the call: no wait, no \<^verbatim>\<open>onRetry\<close>, no further
  invocation. The operation has been invoked with the attempt numbers 1, ..., \<open>n\<close>, the call
  throws an error whose message ends with the message of that failure, and the entry of the
  operation in the registry goes through \<^verbatim>\<open>(... || 0) + 1\<close>. For \<open>n\<close> = 1 this is one
  invocation, whatever \<^verbatim>\<open>maxRetries\<close> is.
\<close>

theorem denied_retry_stops:
  assumes f: "opt_shouldRetry options = Some f"
    and n: "1 \<le> n" "n \<le> or_default (opt_maxRetries options) (mgr_maxRetries this) + 1"
    and before: "\<forall>k. 1 \<le> k \<and> k < n \<longrightarrow> (\<exists>e. operation k = Inl e \<and> f e k = Inr True)"
    and error: "operation n = Inl error"
    and denied: "f error n = Inr False"
  shows "events_of (executeWithRetry this operationName operation options)
         = retried_before this operation options n @ [Attempt n]
     \<and> attempts (events_of (executeWithRetry this operationName operation options)) = [1..<n + 1]
     \<and> result_of (executeWithRetry this operationName operation options)
         = Inl (Error (failed_after operationName
                  (or_default (opt_maxRetries options) (mgr_maxRetries this)) (message error)))
     \<and> retryAttempts (manager_of (executeWithRetry this operationName operation options))
         = (retryAttempts this)(operationName \<mapsto>
              or_zero_plus_one (retryAttempts this operationName))"
proof -
  have each: "\<exists>e. operation k = Inl e \<and> not_retryable (opt_shouldRetry options) e k = Inr False"
    if "1 \<le> k" "k < n" for k
    using before that f by (auto simp: not_retryable_def)
  have "not_retryable (opt_shouldRetry options) error n = Inr True"
    using f denied by (simp add: not_retryable_def)
  with n(2) error have "retry_loop operationName operation
           (or_default (opt_maxRetries options) (mgr_maxRetries this))
           (or_default (opt_baseDelay options) (mgr_baseDelay this))
           (or_default (opt_backoffMultiplier options) (mgr_backoffMultiplier this))
           (or_default (opt_maxDelay options) (mgr_maxDelay this))
           (opt_onRetry options) (opt_shouldRetry options) (retryAttempts this) n None
         = (AfterLoop (Some error), retryAttempts this, [Attempt n])"
    by (rule retry_loop_denied)
  with n each have "retry_loop operationName operation
           (or_default (opt_maxRetries options) (mgr_maxRetries this))
           (or_default (opt_baseDelay options) (mgr_baseDelay this))
           (or_default (opt_backoffMultiplier options) (mgr_backoffMultiplier this))
           (or_default (opt_maxDelay options) (mgr_maxDelay this))
           (opt_onRetry options) (opt_shouldRetry options) (retryAttempts this) 1 None
         = (AfterLoop (Some error), retryAttempts this,
            retried_before this operation options n @ [Attempt n])"
    by (intro executeWithRetry_run) simp_all
  from executeWithRetry_after_loop [OF this] n(1) show ?thesis
    by (simp add: events_of_def result_of_def manager_of_def attempts_append
          attempts_retried_before)
qed

text \<open>
  Three retries allowed, and a \<^verbatim>\<open>shouldRetry\<close> that allows the first retry only: two
  invocations, one wait between them, none after the second.
\<close>

theorem denied_retry_stops_witness:
  "events_of (executeWithRetry new_manager ''load'' always_boom three_retries_once)
     = [Attempt 1, Delay (Finite 1000), Attempt 2]
   \<and> attempts (events_of (executeWithRetry new_manager ''load'' always_boom three_retries_once))
       = [1, 2]
   \<and> result_of (executeWithRetry new_manager ''load'' always_boom three_retries_once)
       = Inl (Error ''load failed after 4 attempts. Last error: boom'')"
proof -
  have f: "opt_shouldRetry three_retries_once = Some retry_once"
    by (simp add: three_retries_once_def no_options_def)
  have n: "(1::nat) \<le> 2"
    "2 \<le> or_default (opt_maxRetries three_retries_once) (mgr_maxRetries new_manager) + 1"
    by (simp_all add: three_retries_once_def no_options_def or_default_def)
  have before: "\<forall>k. 1 \<le> k \<and> k < 2 \<longrightarrow>
      (\<exists>e. always_boom k = Inl e \<and> retry_once e k = Inr True)"
    by (simp add: always_boom_def retry_once_def)
  have error: "always_boom 2 = Inl (Error ''boom'')"
    by (simp add: always_boom_def)
  have denied: "retry_once (Error ''boom'') 2 = Inr False"
    by (simp add: retry_once_def)
  have msg: "failed_after ''load''
       (or_default (opt_maxRetries three_retries_once) (mgr_maxRetries new_manager)) ''boom''
     = ''load failed after 4 attempts. Last error: boom''"
    by code_simp
  have first: "retried_before new_manager always_boom three_retries_once 2
     = [Attempt 1, Delay (Finite 1000)]"
    by code_simp
  have upt: "[Suc 0..<3] = [Suc 0, 2]"
    by code_simp
  from denied_retry_stops [OF f n before error denied, of "''load''"] show ?thesis
    by (simp add: msg first upt)
qed

subsection \<open>The attempt count of the message\<close>

text \<open>
  Claim C5 says that the failure carries the number of attempts that were made. The message
  is built from \<^verbatim>\<open>maxRetries + 1\<close>, not from the attempt counter: after a single invocation,
  stopped by \<^verbatim>\<open>shouldRetry\<close>, with \<^verbatim>\<open>maxRetries\<close> = 3, it reads \<^verbatim>\<open>failed after 4 attempts\<close>.
\<close>

theorem denied_retry_reports_all_attempts:
  "attempts (events_of (executeWithRetry new_manager ''load'' always_boom three_retries_denied)) = [1]
   \<and> result_of (executeWithRetry new_manager ''load'' always_boom three_retries_denied)
       = Inl (Error ''load failed after 4 attempts. Last error: boom'')"
  by code_simp

subsection \<open>Success\<close>

text \<open>The key of an operation's circuit is longer than its name.\<close>

lemma circuit_key_neq: "circuit_key operationName \<noteq> operationName"
proof
  assume "circuit_key operationName = operationName"
  then have "length (circuit_key operationName) = length operationName"
    by simp
  then show False
    by (simp add: circuit_key_def)
qed

text \<open>
  Claim C7, as amended. When attempt \<open>n\<close> is the first to succeed, \<^verbatim>\<open>executeWithRetry\<close> returns
  its value, the invocation of attempt \<open>n\<close> is the last event of the call, the entry under the
  operation name is deleted, and every entry under another key is left as it was: among them
  the circuit of this operation, and every circuit whose key is not the operation name.
\<close>

theorem success_clears_counter:
  assumes n: "1 \<le> n" "n \<le> or_default (opt_maxRetries options) (mgr_maxRetries this) + 1"
    and before: "\<forall>k. 1 \<le> k \<and> k < n \<longrightarrow>
       (\<exists>e. operation k = Inl e \<and> not_retryable (opt_shouldRetry options) e k = Inr False)"
    and success: "operation n = Inr result"
  shows "result_of (executeWithRetry this operationName operation options) = Inr result
     \<and> events_of (executeWithRetry this operationName operation options)
         = retried_before this operation options n @ [Attempt n]
     \<and> attempts (events_of (executeWithRetry this operationName operation options)) = [1..<n + 1]
     \<and> retryAttempts (manager_of (executeWithRetry this operationName operation options))
          operationName = None
     \<and> (\<forall>key. key \<noteq> operationName \<longrightarrow>
          retryAttempts (manager_of (executeWithRetry this operationName operation options)) key
            = retryAttempts this key)
     \<and> retryAttempts (manager_of (executeWithRetry this operationName operation options))
          (circuit_key operationName) = retryAttempts this (circuit_key operationName)"
proof -
  from n(2) success have "retry_loop operationName operation
           (or_default (opt_maxRetries options) (mgr_maxRetries this))
           (or_default (opt_baseDelay options) (mgr_baseDelay this))
           (or_default (opt_backoffMultiplier options) (mgr_backoffMultiplier this))
           (or_default (opt_maxDelay options) (mgr_maxDelay this))
           (opt_onRetry options) (opt_shouldRetry options) (retryAttempts this) n None
         = (Return result, (retryAttempts this)(operationName := None), [Attempt n])"
    by (rule retry_loop_success)
  with n before have "retry_loop operationName operation
           (or_default (opt_maxRetries options) (mgr_maxRetries this))
           (or_default (opt_baseDelay options) (mgr_baseDelay this))
           (or_default (opt_backoffMultiplier options) (mgr_backoffMultiplier this))
           (or_default (opt_maxDelay options) (mgr_maxDelay this))
           (opt_onRetry options) (opt_shouldRetry options) (retryAttempts this) 1 None
         = (Return result, (retryAttempts this)(operationName := None),
            retried_before this operation options n @ [Attempt n])"
    by (intro executeWithRetry_run) simp_all
  from executeWithRetry_return [OF this] n(1) show ?thesis
    by (simp add: events_of_def result_of_def manager_of_def attempts_append
          attempts_retried_before circuit_key_neq)
qed

text \<open>Success at the third attempt for \<^verbatim>\<open>sync\<close>: the circuit of \<^verbatim>\<open>sync\<close> is untouched.\<close>

theorem success_clears_counter_witness:
  "result_of (executeWithRetry after_sync_failure ''sync'' third_time_lucky two_retries) = Inr 42
   \<and> attempts (events_of (executeWithRetry after_sync_failure ''sync'' third_time_lucky two_retries))
       = [1, 2, 3]
   \<and> retryAttempts (manager_of
        (executeWithRetry after_sync_failure ''sync'' third_time_lucky two_retries)) ''circuit_sync''
       = Some (CircuitEntry \<lparr>state = Closed, failureCount = 1, lastFailureTime = 1010,
           lastSuccessTime = 1000\<rparr>)"
proof -
  have n: "(1::nat) \<le> 3"
    "3 \<le> or_default (opt_maxRetries two_retries) (mgr_maxRetries after_sync_failure) + 1"
    by (simp_all add: two_retries_def no_options_def or_default_def)
  have before: "\<forall>k. 1 \<le> k \<and> k < 3 \<longrightarrow>
       (\<exists>e. third_time_lucky k = Inl e \<and> not_retryable (opt_shouldRetry two_retries) e k = Inr False)"
    by (simp add: third_time_lucky_def two_retries_def no_options_def not_retryable_def)
  have success: "third_time_lucky 3 = Inr 42"
    by (simp add: third_time_lucky_def)
  have entry: "retryAttempts after_sync_failure (circuit_key ''sync'')
      = Some (CircuitEntry \<lparr>state = Closed, failureCount = 1, lastFailureTime = 1010,
           lastSuccessTime = 1000\<rparr>)"
    by code_simp
  have key: "circuit_key ''sync'' = ''circuit_sync''"
    by (simp add: circuit_key_def)
  from success_clears_counter [OF n before success, of "''sync''"]
  have "result_of (executeWithRetry after_sync_failure ''sync'' third_time_lucky two_retries) = Inr 42"
    and "attempts (events_of
           (executeWithRetry after_sync_failure ''sync'' third_time_lucky two_retries)) = [1..<3 + 1]"
    and "retryAttempts (manager_of
           (executeWithRetry after_sync_failure ''sync'' third_time_lucky two_retries))
           (circuit_key ''sync'') = retryAttempts after_sync_failure (circuit_key ''sync'')"
    by blast+
  then show ?thesis
    using entry by (simp add: key upt_1_4)
qed

text \<open>
  Claim C7 as it is written speaks of every operation name and every circuit entry. For the
  operation name \<^verbatim>\<open>circuit_sync\<close>, the key of the circuit of the operation \<^verbatim>\<open>sync\<close>, a
  success deletes that circuit.
\<close>

theorem success_deletes_colliding_circuit:
  "retryAttempts after_sync_failure (circuit_key ''sync'')
     = Some (CircuitEntry \<lparr>state = Closed, failureCount = 1, lastFailureTime = 1010,
          lastSuccessTime = 1000\<rparr>)
   \<and> result_of (executeWithRetry after_sync_failure (circuit_key ''sync'') third_time_lucky two_retries)
       = Inr 42
   \<and> retryAttempts (manager_of
        (executeWithRetry after_sync_failure (circuit_key ''sync'') third_time_lucky two_retries))
        (circuit_key ''sync'') = None"
  by code_simp

subsection \<open>The backoff\<close>

text \<open>
  Claim C9. For a positive \<^verbatim>\<open>baseDelay\<close>, a multiplier above 1 and \<^verbatim>\<open>maxDelay\<close> at least
  \<^verbatim>\<open>baseDelay\<close>, the wait after attempt \<open>n\<close> is at most the wait after attempt \<open>n + 1\<close>.
\<close>

theorem backoff_delay_mono:
  assumes "js_less (Finite 0) baseDelay" and "js_less (Finite 1) backoffMultiplier"
    and "js_le baseDelay maxDelay" and "1 \<le> n"
  shows "js_le (backoff_delay baseDelay backoffMultiplier maxDelay n)
           (backoff_delay baseDelay backoffMultiplier maxDelay (n + 1))"
proof -
  obtain k where n: "n = k + 1"
    using assms(4) by (metis add.commute le_Suc_ex)
  have cap: "maxDelay \<noteq> NaN"
    using assms(3) by (cases baseDelay; cases maxDelay) simp_all
  have "js_le (js_times baseDelay (Math_pow backoffMultiplier k))
          (js_times baseDelay (Math_pow backoffMultiplier (k + 1)))"
    using assms(1) Math_pow_ge_one [OF assms(2)] Math_pow_mono [OF assms(2)]
    by (rule js_times_mono)
  then show ?thesis
    using cap by (simp add: backoff_delay_def n Math_min_mono)
qed

text \<open>With 500, 1.5 and 5000, from the fifth attempt to the sixth.\<close>

theorem backoff_delay_mono_witness:
  "js_le (backoff_delay (Finite 500) (Finite (3 / 2)) (Finite 5000) 5)
     (backoff_delay (Finite 500) (Finite (3 / 2)) (Finite 5000) 6)
   \<and> backoff_delay (Finite 500) (Finite (3 / 2)) (Finite 5000) 5 = Finite (10125 / 4)
   \<and> backoff_delay (Finite 500) (Finite (3 / 2)) (Finite 5000) 6 = Finite (30375 / 8)"
proof -
  have "backoff_delay (Finite 500) (Finite (3 / 2)) (Finite 5000) 5 = Finite (10125 / 4)"
    "backoff_delay (Finite 500) (Finite (3 / 2)) (Finite 5000) 6 = Finite (30375 / 8)"
    by code_simp+
  moreover have "js_le (backoff_delay (Finite 500) (Finite (3 / 2)) (Finite 5000) 5)
     (backoff_delay (Finite 500) (Finite (3 / 2)) (Finite 5000) (5 + 1))"
    by (rule backoff_delay_mono) simp_all
  ultimately show ?thesis
    by simp
qed









subsection \<open>A failing onRetry\<close>

text \<open>
  The loop with a callback \<open>f\<close> and the loop with a callback that never throws leave in the
  same way, with the same registry, and with the same events once the console lines of the
  failed callbacks are taken out.
\<close>

lemma retry_loop_onRetry:
  "retry_loop operationName operation maxRetries baseDelay backoffMultiplier maxDelay
      (Some (\<lambda>error attempt delay. Inr ())) shouldRetry reg attempt lastError
   = (case retry_loop operationName operation maxRetries baseDelay backoffMultiplier maxDelay
             (Some f) shouldRetry reg attempt lastError of
        (exit, reg', events) \<Rightarrow> (exit, reg', filter (\<lambda>e. \<not> is_callback_log e) events))"
proof (induction "maxRetries + 1 - attempt" arbitrary: attempt lastError)
  case 0
  then show ?case
    apply (subst retry_loop.simps)
    apply (subst (2) retry_loop.simps)
    by (auto simp: call_onRetry_def Let_def split: sum.splits prod.splits)
next
  case (Suc d)
  then have "d = maxRetries + 1 - (attempt + 1)"
    by simp
  from Suc.hyps(1) [OF this] show ?case
    apply (subst retry_loop.simps)
    apply (subst (2) retry_loop.simps)
    by (auto simp: call_onRetry_def Let_def split: sum.splits prod.splits)
qed


text \<open>
  Claim C8. Whatever the \<^verbatim>\<open>onRetry\<close> callback \<open>f\<close> does, throwing included,
  \<^verbatim>\<open>executeWithRetry\<close> ends with the result and the registry that it has with a callback that
  always succeeds, and makes the same invocations, callback calls and waits in the same
  order: a failure of the callback adds its console line and nothing else.
\<close>

theorem failing_onRetry_is_swallowed:
  "result_of (executeWithRetry this operationName operation (options\<lparr>opt_onRetry := Some f\<rparr>))
     = result_of (executeWithRetry this operationName operation
         (options\<lparr>opt_onRetry := Some (\<lambda>error attempt delay. Inr ())\<rparr>))
   \<and> manager_of (executeWithRetry this operationName operation (options\<lparr>opt_onRetry := Some f\<rparr>))
     = manager_of (executeWithRetry this operationName operation
         (options\<lparr>opt_onRetry := Some (\<lambda>error attempt delay. Inr ())\<rparr>))
   \<and> filter (\<lambda>e. \<not> is_callback_log e)
       (events_of (executeWithRetry this operationName operation (options\<lparr>opt_onRetry := Some f\<rparr>)))
     = events_of (executeWithRetry this operationName operation
         (options\<lparr>opt_onRetry := Some (\<lambda>error attempt delay. Inr ())\<rparr>))"
proof -
  obtain exit reg events where loop: "retry_loop operationName operation
           (or_default (opt_maxRetries options) (mgr_maxRetries this))
           (or_default (opt_baseDelay options) (mgr_baseDelay this))
           (or_default (opt_backoffMultiplier options) (mgr_backoffMultiplier this))
           (or_default (opt_maxDelay options) (mgr_maxDelay this))
           (Some f) (opt_shouldRetry options) (retryAttempts this) 1 None
         = (exit, reg, events)"
    by (metis prod_cases3)
  then have quiet: "retry_loop operationName operation
           (or_default (opt_maxRetries options) (mgr_maxRetries this))
           (or_default (opt_baseDelay options) (mgr_baseDelay this))
           (or_default (opt_backoffMultiplier options) (mgr_backoffMultiplier this))
           (or_default (opt_maxDelay options) (mgr_maxDelay this))
           (Some (\<lambda>error attempt delay. Inr ())) (opt_shouldRetry options) (retryAttempts this)
           1 None
         = (exit, reg, filter (\<lambda>e. \<not> is_callback_log e) events)"
    by (simp add: retry_loop_onRetry [where f = f])
  from loop quiet show ?thesis
    by (simp add: executeWithRetry_def Let_def result_of_def manager_of_def events_of_def
          split: loop_exit.splits option.splits)
qed

text \<open>A callback that throws at each call, while the operation succeeds at its third attempt.\<close>

theorem failing_onRetry_is_swallowed_witness:
  "events_of (executeWithRetry new_manager ''load'' third_time_lucky
      (two_retries\<lparr>opt_onRetry := Some failing_toast\<rparr>))
     = [Attempt 1, OnRetry 1 (Finite 1000), CallbackFailed (Error ''toast failed''),
        Delay (Finite 1000),
        Attempt 2, OnRetry 2 (Finite 2000), CallbackFailed (Error ''toast failed''),
        Delay (Finite 2000),
        Attempt 3]
   \<and> result_of (executeWithRetry new_manager ''load'' third_time_lucky
        (two_retries\<lparr>opt_onRetry := Some (\<lambda>error attempt delay. Inr ())\<rparr>)) = Inr 42
   \<and> result_of (executeWithRetry new_manager ''load'' third_time_lucky
        (two_retries\<lparr>opt_onRetry := Some failing_toast\<rparr>)) = Inr 42"
proof -
  have "events_of (executeWithRetry new_manager ''load'' third_time_lucky
      (two_retries\<lparr>opt_onRetry := Some failing_toast\<rparr>))
     = [Attempt 1, OnRetry 1 (Finite 1000), CallbackFailed (Error ''toast failed''),
        Delay (Finite 1000),
        Attempt 2, OnRetry 2 (Finite 2000), CallbackFailed (Error ''toast failed''),
        Delay (Finite 2000),
        Attempt 3]"
    by code_simp
  moreover have "result_of (executeWithRetry new_manager ''load'' third_time_lucky
        (two_retries\<lparr>opt_onRetry := Some (\<lambda>error attempt delay. Inr ())\<rparr>)) = Inr 42"
    by code_simp
  ultimately show ?thesis
    using failing_onRetry_is_swallowed [where this = new_manager and operationName = "''load''"
        and operation = third_time_lucky and options = two_retries and f = failing_toast]
    by simp
qed

subsection \<open>One call through the breaker\<close>

text \<open>The outcomes of a call, by the entry under the key of the circuit.\<close>

lemma getCircuitState_present:
  "retryAttempts this circuitKey = Some v \<Longrightarrow> getCircuitState this circuitKey now = (v, this)"
  by (simp add: getCircuitState_def)

lemma breaker_rejects:
  assumes "retryAttempts this (circuit_key operationName) = Some (CircuitEntry c)"
    and "state c = Open"
    and "now - lastFailureTime c < or_default (opt_resetTimeout options) 30000"
  shows "executeWithCircuitBreaker this operationName operation options now settled
       = (Inl (Error (circuit_open_message operationName)), this, [])"
  using assms by (simp add: executeWithCircuitBreaker_def getCircuitState_present)

lemma breaker_failure:
  assumes "retryAttempts this (circuit_key operationName) = Some (CircuitEntry c)"
    and "state c = Open \<longrightarrow> or_default (opt_resetTimeout options) 30000 \<le> now - lastFailureTime c"
  shows "executeWithCircuitBreaker this operationName (Inl error) options now settled
       = (Inl error,
          this\<lparr>retryAttempts := (retryAttempts this)(circuit_key operationName \<mapsto>
            CircuitEntry
              \<lparr>state =
                 (if or_default (opt_failureThreshold options) 5 \<le> failureCount c + 1 then Open
                  else if state c = Open then HalfOpen else state c),
               failureCount = failureCount c + 1, lastFailureTime = settled,
               lastSuccessTime = lastSuccessTime c\<rparr>)\<rparr>,
          [Operation])"
  using assms by (cases c) (auto simp: executeWithCircuitBreaker_def getCircuitState_present Let_def)

lemma breaker_success:
  assumes "retryAttempts this (circuit_key operationName) = Some (CircuitEntry c)"
    and "state c = Open \<longrightarrow> or_default (opt_resetTimeout options) 30000 \<le> now - lastFailureTime c"
  shows "executeWithCircuitBreaker this operationName (Inr result) options now settled
       = (Inr result,
          this\<lparr>retryAttempts := (retryAttempts this)(circuit_key operationName \<mapsto>
            CircuitEntry
              \<lparr>state = Closed, failureCount = 0, lastFailureTime = lastFailureTime c,
               lastSuccessTime = settled\<rparr>)\<rparr>,
          [Operation])"
  using assms by (cases c) (auto simp: executeWithCircuitBreaker_def getCircuitState_present Let_def)

lemma breaker_creates:
  assumes "retryAttempts this (circuit_key operationName) = None"
  shows "executeWithCircuitBreaker this operationName operation options now settled
       = executeWithCircuitBreaker
           (this\<lparr>retryAttempts := (retryAttempts this)(circuit_key operationName \<mapsto>
              CircuitEntry \<lparr>state = Closed, failureCount = 0, lastFailureTime = 0,
                lastSuccessTime = now\<rparr>)\<rparr>)
           operationName operation options now settled"
  using assms by (simp add: executeWithCircuitBreaker_def getCircuitState_def Let_def)


subsection \<open>Consecutive failures\<close>

text \<open>
  A run of calls whose operations fail, on a closed circuit: while the count stays below
  the threshold the circuit stays closed, and the call that reaches the threshold opens it.
\<close>

lemma breaker_calls_append:
  "breaker_calls this operationName options (xs @ ys)
   = breaker_calls (breaker_calls this operationName options xs) operationName options ys"
  by (induction xs arbitrary: this) auto

lemma breaker_calls_creates:
  assumes "retryAttempts this (circuit_key operationName) = None"
  shows "breaker_calls this operationName options ((operation, now, settled) # calls)
       = breaker_calls
           (this\<lparr>retryAttempts := (retryAttempts this)(circuit_key operationName \<mapsto>
              CircuitEntry \<lparr>state = Closed, failureCount = 0, lastFailureTime = 0,
                lastSuccessTime = now\<rparr>)\<rparr>)
           operationName options ((operation, now, settled) # calls)"
  by (simp add: breaker_creates [OF assms])

lemma closed_failures:
  assumes "retryAttempts this (circuit_key operationName) = Some (CircuitEntry c)"
    and "state c = Closed"
    and "\<forall>x \<in> set calls. isl (fst x)"
    and "failureCount c + length calls < or_default (opt_failureThreshold options) 5"
  shows "\<exists>c'. retryAttempts (breaker_calls this operationName options calls)
             (circuit_key operationName) = Some (CircuitEntry c')
           \<and> state c' = Closed \<and> failureCount c' = failureCount c + length calls"
  using assms
proof (induction calls arbitrary: this c)
  case Nil
  then show ?case by simp
next
  case (Cons x calls)
  obtain operation now settled where x: "x = (operation, now, settled)"
    by (cases x)
  with Cons.prems(3) obtain error where operation: "operation = Inl error"
    by (cases operation) auto
  let ?c = "\<lparr>state = Closed, failureCount = failureCount c + 1, lastFailureTime = settled,
              lastSuccessTime = lastSuccessTime c\<rparr>"
  let ?next = "this\<lparr>retryAttempts := (retryAttempts this)(circuit_key operationName \<mapsto>
      CircuitEntry ?c)\<rparr>"
  have step: "executeWithCircuitBreaker this operationName (Inl error) options
      now settled = (Inl error, ?next, [Operation])"
    using breaker_failure [OF Cons.prems(1), of options now error settled] Cons.prems(2,4)
    by simp
  have "\<exists>c'. retryAttempts (breaker_calls ?next operationName options calls)
             (circuit_key operationName) = Some (CircuitEntry c')
           \<and> state c' = Closed \<and> failureCount c' = failureCount ?c + length calls"
    using Cons.prems(3,4) by (intro Cons.IH) simp_all
  then show ?case
    by (simp add: x operation step manager_of_def)
qed


lemma failures_open:
  assumes entry: "retryAttempts this (circuit_key operationName) = Some (CircuitEntry c)"
    and closed: "state c = Closed"
    and failing: "\<forall>x \<in> set calls. isl (fst x)"
    and some: "calls \<noteq> []"
    and reach: "failureCount c + length calls = or_default (opt_failureThreshold options) 5"
  shows "\<exists>c'. retryAttempts (breaker_calls this operationName options calls)
             (circuit_key operationName) = Some (CircuitEntry c')
           \<and> state c' = Open
           \<and> failureCount c' = or_default (opt_failureThreshold options) 5
           \<and> lastFailureTime c' = snd (snd (last calls))"
proof -
  obtain operation now settled where last: "last calls = (operation, now, settled)"
    by (cases "last calls")
  with failing some obtain error where operation: "operation = Inl error"
    by (cases operation) (use last_in_set in fastforce)+
  have split: "calls = butlast calls @ [(operation, now, settled)]"
    using some last by (metis append_butlast_last_id)
  have "\<forall>x \<in> set (butlast calls). isl (fst x)"
    using failing by (meson in_set_butlastD)
  moreover have "failureCount c + length (butlast calls)
      < or_default (opt_failureThreshold options) 5"
    using some reach by (cases calls) auto
  ultimately obtain c1 where c1:
    "retryAttempts (breaker_calls this operationName options (butlast calls))
       (circuit_key operationName) = Some (CircuitEntry c1)"
    "state c1 = Closed" "failureCount c1 = failureCount c + length (butlast calls)"
    using closed_failures [OF entry closed] by blast
  have count: "failureCount c1 + 1 = or_default (opt_failureThreshold options) 5"
    using c1(3) some reach by (cases calls) auto
  have "breaker_calls this operationName options calls
      = manager_of (executeWithCircuitBreaker
          (breaker_calls this operationName options (butlast calls)) operationName
          operation options now settled)"
    by (subst split) (simp add: breaker_calls_append)
  then show ?thesis
    using c1(2) count last
    by (simp add: manager_of_def operation breaker_failure [OF c1(1)])
qed


text \<open>
  Claim C3. Take a failure threshold \<open>t\<close> of at least 1 and a circuit that is missing or
  closed with a count of 0. After \<open>t\<close> calls in a row whose operations fail, the circuit is
  open with a count of \<open>t\<close>, and the time of its last failure is the time at which the last
  of these operations settled. A further call that starts less than \<^verbatim>\<open>resetTimeout\<close> after
  that time throws the circuit-open error, invokes nothing and changes nothing. A further call
  that starts \<^verbatim>\<open>resetTimeout\<close> or more after it invokes its operation, and when the operation
  succeeds the circuit is closed with a count of 0.
\<close>

theorem circuit_opens_and_recovers:
  fixes calls :: "((js_error + 'v) \<times> int \<times> int) list"
  assumes t: "0 < t" "or_default (opt_failureThreshold options) 5 = t"
    and fresh: "retryAttempts this (circuit_key operationName) = None \<or>
       (\<exists>c. retryAttempts this (circuit_key operationName) = Some (CircuitEntry c)
          \<and> state c = Closed \<and> failureCount c = 0)"
    and calls: "length calls = t" "\<forall>x \<in> set calls. isl (fst x)"
    and opened: "opened = breaker_calls this operationName options calls"
    and lastFailure: "lastFailure = snd (snd (last calls))"
  shows "(\<exists>c. retryAttempts opened (circuit_key operationName) = Some (CircuitEntry c)
        \<and> state c = Open \<and> failureCount c = t \<and> lastFailureTime c = lastFailure)
     \<and> (\<forall>(operation :: js_error + 'v) now settled.
           now - lastFailure < or_default (opt_resetTimeout options) 30000 \<longrightarrow>
           executeWithCircuitBreaker opened operationName operation options now settled
             = (Inl (Error (circuit_open_message operationName)), opened, []))
     \<and> (\<forall>(operation :: js_error + 'v) now settled.
           or_default (opt_resetTimeout options) 30000 \<le> now - lastFailure \<longrightarrow>
           events_of (executeWithCircuitBreaker opened operationName operation options now settled)
             = [Operation])
     \<and> (\<forall>(result :: 'v) now settled.
           or_default (opt_resetTimeout options) 30000 \<le> now - lastFailure \<longrightarrow>
           result_of (executeWithCircuitBreaker opened operationName (Inr result) options now settled)
             = Inr result
           \<and> (\<exists>c. retryAttempts
                 (manager_of (executeWithCircuitBreaker opened operationName (Inr result) options
                    now settled))
                 (circuit_key operationName) = Some (CircuitEntry c)
               \<and> state c = Closed \<and> failureCount c = 0 \<and> lastSuccessTime c = settled))"
proof -
  have some: "calls \<noteq> []"
    using t(1) calls(1) by auto
  have "\<exists>c. retryAttempts opened (circuit_key operationName) = Some (CircuitEntry c)
     \<and> state c = Open \<and> failureCount c = t \<and> lastFailureTime c = snd (snd (last calls))"
    using fresh
  proof
    assume none: "retryAttempts this (circuit_key operationName) = None"
    obtain operation now settled rest where first: "calls = (operation, now, settled) # rest"
      using some by (cases calls) auto
    let ?c = "\<lparr>state = Closed, failureCount = 0, lastFailureTime = 0, lastSuccessTime = now\<rparr>"
    let ?created = "this\<lparr>retryAttempts := (retryAttempts this)(circuit_key operationName \<mapsto>
        CircuitEntry ?c)\<rparr>"
    have "opened = breaker_calls ?created operationName options calls"
      unfolding opened first by (rule breaker_calls_creates [OF none])
    moreover have "retryAttempts ?created (circuit_key operationName) = Some (CircuitEntry ?c)"
      by simp
    from failures_open [OF this _ calls(2) some, of options] t(2) calls(1)
    have "\<exists>c'. retryAttempts (breaker_calls ?created operationName options calls)
             (circuit_key operationName) = Some (CircuitEntry c')
           \<and> state c' = Open \<and> failureCount c' = t
           \<and> lastFailureTime c' = snd (snd (last calls))"
      by simp
    ultimately show ?thesis
      by simp
  next
    assume "\<exists>c. retryAttempts this (circuit_key operationName) = Some (CircuitEntry c)
          \<and> state c = Closed \<and> failureCount c = 0"
    then obtain c where c: "retryAttempts this (circuit_key operationName) = Some (CircuitEntry c)"
        "state c = Closed" "failureCount c = 0"
      by blast
    from failures_open [OF c(1,2) calls(2) some, of options] t(2) calls(1) c(3) opened
    show ?thesis
      by simp
  qed
  then obtain c where c: "retryAttempts opened (circuit_key operationName) = Some (CircuitEntry c)"
      "state c = Open" "failureCount c = t" "lastFailureTime c = lastFailure"
    using lastFailure by blast
  have rejected: "executeWithCircuitBreaker opened operationName operation options now settled
      = (Inl (Error (circuit_open_message operationName)), opened, [])"
    if "now - lastFailure < or_default (opt_resetTimeout options) 30000"
    for operation :: "js_error + 'v" and now settled
    using that c(4) by (simp add: breaker_rejects [OF c(1,2)])
  have allowed: "events_of (executeWithCircuitBreaker opened operationName operation options
        now settled) = [Operation]"
    if "or_default (opt_resetTimeout options) 30000 \<le> now - lastFailure"
    for operation :: "js_error + 'v" and now settled
    using that c(4)
    by (cases operation)
      (simp_all add: breaker_success [OF c(1)] breaker_failure [OF c(1)] events_of_def)
  have recovers: "result_of (executeWithCircuitBreaker opened operationName (Inr result) options
        now settled) = Inr result
      \<and> (\<exists>c. retryAttempts
            (manager_of (executeWithCircuitBreaker opened operationName (Inr result) options
               now settled))
            (circuit_key operationName) = Some (CircuitEntry c)
          \<and> state c = Closed \<and> failureCount c = 0 \<and> lastSuccessTime c = settled)"
    if "or_default (opt_resetTimeout options) 30000 \<le> now - lastFailure"
    for result :: 'v and now settled
    using that c(4) by (simp add: breaker_success [OF c(1)] result_of_def manager_of_def)
  from c rejected allowed recovers show ?thesis
    by blast
qed

text \<open>
  With the defaults (threshold 5, timeout 30000) and five failures, the last at 5010: a call
  at 35009 is rejected, a call at 35010 goes through.
\<close>

theorem circuit_opens_and_recovers_witness:
  "executeWithCircuitBreaker (breaker_calls new_manager ''save'' breaker_defaults five_failures)
      ''save'' (Inr (7::nat)) breaker_defaults 35009 35020
     = (Inl (Error ''Circuit breaker is open for save. Try again later.''),
        breaker_calls new_manager ''save'' breaker_defaults five_failures, [])
   \<and> events_of (executeWithCircuitBreaker
        (breaker_calls new_manager ''save'' breaker_defaults five_failures)
        ''save'' (Inr (7::nat)) breaker_defaults 35010 35020) = [Operation]
   \<and> result_of (executeWithCircuitBreaker
        (breaker_calls new_manager ''save'' breaker_defaults five_failures)
        ''save'' (Inr (7::nat)) breaker_defaults 35010 35020) = Inr 7
   \<and> retryAttempts (manager_of (executeWithCircuitBreaker
        (breaker_calls new_manager ''save'' breaker_defaults five_failures)
        ''save'' (Inr (7::nat)) breaker_defaults 35010 35020)) (circuit_key ''save'')
     = Some (CircuitEntry \<lparr>state = Closed, failureCount = 0, lastFailureTime = 5010,
         lastSuccessTime = 35020\<rparr>)"
proof -
  have t: "(0::nat) < 5" "or_default (opt_failureThreshold breaker_defaults) 5 = 5"
    by (simp_all add: breaker_defaults_def or_default_def)
  have fresh: "retryAttempts new_manager (circuit_key ''save'') = None \<or>
       (\<exists>c. retryAttempts new_manager (circuit_key ''save'') = Some (CircuitEntry c)
          \<and> state c = Closed \<and> failureCount c = 0)"
    by (simp add: new_manager_def)
  have calls: "length five_failures = 5" "\<forall>x \<in> set five_failures. isl (fst x)"
    by (simp_all add: five_failures_def)
  have timeout: "or_default (opt_resetTimeout breaker_defaults) 30000 = 30000"
    by (simp add: breaker_defaults_def or_default_def)
  have last: "5010 = snd (snd (last five_failures))"
    by (simp add: five_failures_def)
  have msg: "circuit_open_message ''save'' = ''Circuit breaker is open for save. Try again later.''"
    by (simp add: circuit_open_message_def)
  note opens = circuit_opens_and_recovers [OF t fresh calls refl last, unfolded timeout msg]
  from opens have "executeWithCircuitBreaker
      (breaker_calls new_manager ''save'' breaker_defaults five_failures)
      ''save'' (Inr (7::nat)) breaker_defaults 35009 35020
     = (Inl (Error ''Circuit breaker is open for save. Try again later.''),
        breaker_calls new_manager ''save'' breaker_defaults five_failures, [])"
    by simp
  moreover from opens have "events_of (executeWithCircuitBreaker
        (breaker_calls new_manager ''save'' breaker_defaults five_failures)
        ''save'' (Inr (7::nat)) breaker_defaults 35010 35020) = [Operation]"
    by simp
  moreover from opens have "result_of (executeWithCircuitBreaker
        (breaker_calls new_manager ''save'' breaker_defaults five_failures)
        ''save'' (Inr (7::nat)) breaker_defaults 35010 35020) = Inr 7"
    by simp
  moreover have "retryAttempts (manager_of (executeWithCircuitBreaker
        (breaker_calls new_manager ''save'' breaker_defaults five_failures)
        ''save'' (Inr (7::nat)) breaker_defaults 35010 35020)) (circuit_key ''save'')
     = Some (CircuitEntry \<lparr>state = Closed, failureCount = 0, lastFailureTime = 5010,
         lastSuccessTime = 35020\<rparr>)"
    by code_simp
  ultimately show ?thesis
    by simp
qed

subsection \<open>A failure of the trial call\<close>

text \<open>
  Claim C6. When the circuit is half-open, or open with \<^verbatim>\<open>resetTimeout\<close> elapsed so that the
  call makes it half-open, and the operation fails, the call rethrows the error, the count
  goes up by one, the time of the last failure becomes the time at which the operation
  settled, and the circuit is open exactly when the new count has reached the threshold of
  this call; below the threshold it stays half-open.
\<close>

theorem half_open_failure_counts:
  assumes entry: "retryAttempts this (circuit_key operationName) = Some (CircuitEntry c)"
    and trial: "state c = HalfOpen \<or>
       (state c = Open \<and> or_default (opt_resetTimeout options) 30000 \<le> now - lastFailureTime c)"
  shows "result_of (executeWithCircuitBreaker this operationName (Inl error) options now settled)
         = Inl error
     \<and> events_of (executeWithCircuitBreaker this operationName (Inl error) options now settled)
         = [Operation]
     \<and> retryAttempts
         (manager_of (executeWithCircuitBreaker this operationName (Inl error) options now settled))
         (circuit_key operationName)
       = Some (CircuitEntry
           \<lparr>state = (if or_default (opt_failureThreshold options) 5 \<le> failureCount c + 1
                     then Open else HalfOpen),
            failureCount = failureCount c + 1, lastFailureTime = settled,
            lastSuccessTime = lastSuccessTime c\<rparr>)"
proof -
  have "state c = Open \<longrightarrow> or_default (opt_resetTimeout options) 30000 \<le> now - lastFailureTime c"
    using trial by auto
  note step = breaker_failure [OF entry this]
  from trial show ?thesis
    by (auto simp: step result_of_def events_of_def manager_of_def)
qed

text \<open>
  A circuit opened by one failure under a threshold of 1; the trial call, made with the
  default threshold of 5, fails: the count is 2 and the circuit is half-open, not open.
\<close>

theorem half_open_failure_counts_witness:
  "retryAttempts opened_at_threshold_one (circuit_key ''sync'')
     = Some (CircuitEntry \<lparr>state = Open, failureCount = 1, lastFailureTime = 1010,
         lastSuccessTime = 1000\<rparr>)
   \<and> retryAttempts
       (manager_of (executeWithCircuitBreaker opened_at_threshold_one ''sync''
          (Inl (Error ''boom'') :: js_error + nat) breaker_defaults 40000 40010))
       (circuit_key ''sync'')
     = Some (CircuitEntry \<lparr>state = HalfOpen, failureCount = 2, lastFailureTime = 40010,
         lastSuccessTime = 1000\<rparr>)"
proof -
  have entry: "retryAttempts opened_at_threshold_one (circuit_key ''sync'')
     = Some (CircuitEntry \<lparr>state = Open, failureCount = 1, lastFailureTime = 1010,
         lastSuccessTime = 1000\<rparr>)"
    by code_simp
  have trial: "state \<lparr>state = Open, failureCount = 1, lastFailureTime = 1010,
         lastSuccessTime = 1000\<rparr> = HalfOpen \<or>
       (state \<lparr>state = Open, failureCount = 1, lastFailureTime = 1010,
         lastSuccessTime = 1000\<rparr> = Open
        \<and> or_default (opt_resetTimeout breaker_defaults) 30000
          \<le> 40000 - lastFailureTime \<lparr>state = Open, failureCount = 1, lastFailureTime = 1010,
         lastSuccessTime = 1000\<rparr>)"
    by (simp add: breaker_defaults_def or_default_def)
  have threshold: "or_default (opt_failureThreshold breaker_defaults) 5 = 5"
    by (simp add: breaker_defaults_def or_default_def)
  show ?thesis
    by (simp add: half_open_failure_counts [OF entry trial] entry threshold)
qed

text \<open>
  When every call for an operation passes the same threshold, the count of an open circuit
  is at least the threshold, and no call leaves the circuit half-open: the failure of a
  trial call opens the circuit again at once.
\<close>

lemma one_threshold_never_half_open:
  assumes "retryAttempts this (circuit_key operationName) = Some (CircuitEntry c)"
    and "state c \<noteq> HalfOpen"
    and "state c = Open \<longrightarrow> or_default (opt_failureThreshold options) 5 \<le> failureCount c"
  shows "\<exists>c'. retryAttempts
           (manager_of (executeWithCircuitBreaker this operationName operation options now settled))
           (circuit_key operationName) = Some (CircuitEntry c')
         \<and> state c' \<noteq> HalfOpen
         \<and> (state c' = Open \<longrightarrow> or_default (opt_failureThreshold options) 5 \<le> failureCount c')"
proof (cases "state c = Open \<and> now - lastFailureTime c < or_default (opt_resetTimeout options) 30000")
  case True
  then show ?thesis
    using assms by (simp add: breaker_rejects manager_of_def)
next
  case False
  then have "state c = Open \<longrightarrow> or_default (opt_resetTimeout options) 30000 \<le> now - lastFailureTime c"
    by auto
  then show ?thesis
    using assms(2,3)
    by (cases operation)
      (auto simp: breaker_failure [OF assms(1)] breaker_success [OF assms(1)] manager_of_def)
qed

subsection \<open>One map for counters and circuits\<close>

text \<open>What the loop does to the registry, by the way it is left.\<close>

lemma retry_loop_registry:
  "retry_loop operationName operation maxRetries baseDelay backoffMultiplier maxDelay onRetry
      shouldRetry reg attempt lastError = (exit, reg', events)
   \<Longrightarrow> reg' = (case exit of Return result \<Rightarrow> reg(operationName := None) | _ \<Rightarrow> reg)"
proof (induction "maxRetries + 1 - attempt" arbitrary: attempt lastError exit reg' events)
  case 0
  from 0(2) show ?case
    apply (subst (asm) retry_loop.simps)
    using 0(1) by (auto simp: Let_def split: sum.splits prod.splits if_splits)
next
  case (Suc d)
  then have d: "d = maxRetries + 1 - (attempt + 1)"
    by simp
  from Suc(3) show ?case
    apply (subst (asm) retry_loop.simps)
    using Suc.hyps(1) [OF d]
    by (auto simp: Let_def split: sum.splits prod.splits if_splits)
qed

text \<open>A \<^verbatim>\<open>shouldRetry\<close> that never throws: the loop is not left by an exception.\<close>

lemma not_retryable_total:
  assumes "\<forall>f. shouldRetry = Some f \<longrightarrow> (\<forall>e k. \<exists>b. f e k = Inr b)"
  shows "not_retryable shouldRetry e k \<noteq> Inl x"
proof (cases shouldRetry)
  case None
  then show ?thesis by (simp add: not_retryable_def)
next
  case (Some f)
  with assms obtain b where "f e k = Inr b"
    by blast
  with Some show ?thesis by (simp add: not_retryable_def)
qed

lemma retry_loop_no_throw:
  assumes "\<forall>f. shouldRetry = Some f \<longrightarrow> (\<forall>e k. \<exists>b. f e k = Inr b)"
  shows "retry_loop operationName operation maxRetries baseDelay backoffMultiplier maxDelay onRetry
      shouldRetry reg attempt lastError = (exit, reg', events)
   \<Longrightarrow> exit \<noteq> Throw thrown"
proof (induction "maxRetries + 1 - attempt" arbitrary: attempt lastError exit reg' events)
  case 0
  note total = not_retryable_total [OF assms]
  from 0(2) show ?case
    apply (subst (asm) retry_loop.simps)
    using 0(1) total by (auto simp: Let_def split: sum.splits prod.splits if_splits)
next
  case (Suc d)
  note total = not_retryable_total [OF assms]
  from Suc have d: "d = maxRetries + 1 - (attempt + 1)"
    by simp
  from Suc(3) show ?case
    apply (subst (asm) retry_loop.simps)
    using Suc.hyps(1) [OF d] total
    by (auto simp: Let_def split: sum.splits prod.splits if_splits)
qed

text \<open>The registry after a call, by its result.\<close>

lemma executeWithRetry_registry_success:
  assumes "result_of (executeWithRetry this operationName operation options) = Inr result"
  shows "retryAttempts (manager_of (executeWithRetry this operationName operation options))
       = (retryAttempts this)(operationName := None)"
proof -
  obtain exit reg events where loop: "retry_loop operationName operation
           (or_default (opt_maxRetries options) (mgr_maxRetries this))
           (or_default (opt_baseDelay options) (mgr_baseDelay this))
           (or_default (opt_backoffMultiplier options) (mgr_backoffMultiplier this))
           (or_default (opt_maxDelay options) (mgr_maxDelay this))
           (opt_onRetry options) (opt_shouldRetry options) (retryAttempts this) 1 None
         = (exit, reg, events)"
    by (metis prod_cases3)
  from retry_loop_registry [OF loop] loop assms show ?thesis
    by (auto simp: executeWithRetry_def Let_def result_of_def manager_of_def
          split: loop_exit.splits option.splits)
qed

lemma executeWithRetry_registry_failure:
  assumes "\<forall>f. opt_shouldRetry options = Some f \<longrightarrow> (\<forall>e k. \<exists>b. f e k = Inr b)"
    and "isl (result_of (executeWithRetry this operationName operation options))"
  shows "retryAttempts (manager_of (executeWithRetry this operationName operation options))
       = (retryAttempts this)(operationName \<mapsto>
            or_zero_plus_one (retryAttempts this operationName))"
proof -
  obtain exit reg events where loop: "retry_loop operationName operation
           (or_default (opt_maxRetries options) (mgr_maxRetries this))
           (or_default (opt_baseDelay options) (mgr_baseDelay this))
           (or_default (opt_backoffMultiplier options) (mgr_backoffMultiplier this))
           (or_default (opt_maxDelay options) (mgr_maxDelay this))
           (opt_onRetry options) (opt_shouldRetry options) (retryAttempts this) 1 None
         = (exit, reg, events)"
    by (metis prod_cases3)
  from retry_loop_registry [OF loop] retry_loop_no_throw [OF assms(1) loop] loop assms(2)
  show ?thesis
    by (auto simp: executeWithRetry_def Let_def result_of_def manager_of_def
          split: loop_exit.splits option.splits)
qed


text \<open>
  Claim C10, as amended. Counters and circuits live in one map, and the key of the circuit of
  an operation \<open>X\<close> is \<^verbatim>\<open>circuit_\<close> followed by \<open>X\<close>. Take a call of \<^verbatim>\<open>executeWithRetry\<close> whose
  operation name is that key, with a \<^verbatim>\<open>shouldRetry\<close> that does not throw. When the call succeeds,
  the entry under the key is deleted, and the next \<^verbatim>\<open>getCircuitState\<close> for \<open>X\<close> makes a new
  circuit, closed with a count of 0. When the call fails, a circuit stored under the key is
  replaced by the string \<^verbatim>\<open>[object Object]1\<close> (an object plus 1 is a string, not a number),
  and a missing entry becomes the number 1; \<^verbatim>\<open>getCircuitState\<close> for \<open>X\<close> then returns that
  string or that number in place of a circuit.
\<close>

theorem colliding_name_and_circuit:
  assumes total: "\<forall>f. opt_shouldRetry options = Some f \<longrightarrow> (\<forall>e k. \<exists>b. f e k = Inr b)"
    and out: "out = executeWithRetry this (circuit_key X) operation options"
  shows "(\<not> isl (result_of out) \<longrightarrow>
           retryAttempts (manager_of out) (circuit_key X) = None
         \<and> fst (getCircuitState (manager_of out) (circuit_key X) now)
             = CircuitEntry \<lparr>state = Closed, failureCount = 0, lastFailureTime = 0,
                 lastSuccessTime = now\<rparr>)
     \<and> (isl (result_of out) \<longrightarrow>
           (\<forall>c. retryAttempts this (circuit_key X) = Some (CircuitEntry c) \<longrightarrow>
              retryAttempts (manager_of out) (circuit_key X) = Some (Text ''[object Object]1'')
            \<and> fst (getCircuitState (manager_of out) (circuit_key X) now)
                = Text ''[object Object]1'')
         \<and> (retryAttempts this (circuit_key X) = None \<longrightarrow>
              retryAttempts (manager_of out) (circuit_key X) = Some (Counter 1)
            \<and> fst (getCircuitState (manager_of out) (circuit_key X) now) = Counter 1))"
proof (cases "result_of out")
  case (Inr result)
  then have "retryAttempts (manager_of out) = (retryAttempts this)(circuit_key X := None)"
    unfolding out by (rule executeWithRetry_registry_success)
  with Inr show ?thesis
    by (simp add: getCircuitState_def Let_def)
next
  case (Inl error)
  then have "isl (result_of (executeWithRetry this (circuit_key X) operation options))"
    by (simp add: out)
  with total have "retryAttempts (manager_of out)
      = (retryAttempts this)(circuit_key X \<mapsto> or_zero_plus_one (retryAttempts this (circuit_key X)))"
    unfolding out by (rule executeWithRetry_registry_failure)
  with Inl show ?thesis
    by (simp add: getCircuitState_def or_zero_plus_one_def Let_def)
qed

text \<open>
  A success for the name \<^verbatim>\<open>circuit_sync\<close> on the manager that holds the circuit of \<^verbatim>\<open>sync\<close>,
  and a failure for that name on a new manager.
\<close>

theorem colliding_name_and_circuit_witness:
  "retryAttempts (manager_of
      (executeWithRetry after_sync_failure (circuit_key ''sync'') third_time_lucky two_retries))
      (circuit_key ''sync'') = None
   \<and> fst (getCircuitState (manager_of
        (executeWithRetry after_sync_failure (circuit_key ''sync'') third_time_lucky two_retries))
        (circuit_key ''sync'') 9000)
     = CircuitEntry \<lparr>state = Closed, failureCount = 0, lastFailureTime = 0,
         lastSuccessTime = 9000\<rparr>
   \<and> retryAttempts (manager_of
        (executeWithRetry new_manager (circuit_key ''sync'') always_boom two_retries))
        (circuit_key ''sync'') = Some (Counter 1)
   \<and> fst (getCircuitState (manager_of
        (executeWithRetry new_manager (circuit_key ''sync'') always_boom two_retries))
        (circuit_key ''sync'') 9000) = Counter 1"
proof -
  have total: "\<forall>f. opt_shouldRetry two_retries = Some f \<longrightarrow> (\<forall>e k. \<exists>b. f e k = Inr b)"
    by (simp add: two_retries_def no_options_def)
  have success: "\<not> isl (result_of
      (executeWithRetry after_sync_failure (circuit_key ''sync'') third_time_lucky two_retries))"
    by code_simp
  have failure: "isl (result_of
      (executeWithRetry new_manager (circuit_key ''sync'') always_boom two_retries))"
    by code_simp
  have none: "retryAttempts new_manager (circuit_key ''sync'') = None"
    by (simp add: new_manager_def)
  from colliding_name_and_circuit [OF total refl, of after_sync_failure "''sync''"
      third_time_lucky 9000] success
    colliding_name_and_circuit [OF total refl, of new_manager "''sync''" always_boom 9000]
    failure none
  show ?thesis
    by simp
qed

text \<open>
  Claim C10 as it is written says that a failed call puts an integer counter in the place of
  the circuit. On the manager that holds the circuit of \<^verbatim>\<open>sync\<close>, the failed call for the name
  \<^verbatim>\<open>circuit_sync\<close> leaves a string there.
\<close>

theorem failure_turns_circuit_into_text:
  "retryAttempts after_sync_failure (circuit_key ''sync'')
     = Some (CircuitEntry \<lparr>state = Closed, failureCount = 1, lastFailureTime = 1010,
          lastSuccessTime = 1000\<rparr>)
   \<and> isl (result_of
        (executeWithRetry after_sync_failure (circuit_key ''sync'') always_boom two_retries))
   \<and> retryAttempts (manager_of
        (executeWithRetry after_sync_failure (circuit_key ''sync'') always_boom two_retries))
        (circuit_key ''sync'') = Some (Text ''[object Object]1'')"
  by code_simp

end
